theory Spec2Isabelle
  imports Main
begin

unbundle bit_operations_syntax

section \<open>Direct I/O on block devices: block/fops.c\<close>

text \<open>
  A shallow embedding of the direct-I/O engine of \<^verbatim>\<open>block/fops.c\<close>:
  \<^verbatim>\<open>blkdev_direct_IO\<close>, \<^verbatim>\<open>__blkdev_direct_IO_simple\<close>,
  \<^verbatim>\<open>__blkdev_direct_IO\<close> and the two completion handlers
  \<^verbatim>\<open>blkdev_bio_end_io_simple\<close> and \<^verbatim>\<open>blkdev_bio_end_io\<close>.

  The C code works on shared mutable objects, so the model is a state record \<open>world\<close>
  that every function takes and returns. The bios of one request live in a store
  (\<open>bios\<close>, indexed by allocation order). The \<^verbatim>\<open>struct blkdev_dio\<close> embeds its
  first bio (\<^verbatim>\<open>dio->bio\<close>), so \<^verbatim>\<open>dio->bio.bi_status\<close> and the \<^verbatim>\<open>bi_status\<close> of
  the first bio are one and the same field: the store keeps that aliasing, the first bio
  of a request being entry \<open>0\<close> of a fresh store.

  Completions arrive from the device in any order and at any time after a bio has been
  handed to \<^verbatim>\<open>submit_bio\<close>. The submitting thread is therefore cut at the points where
  it can be overtaken (the head of the submission loop and the wait loops) and recorded
  as a program counter \<open>pc\<close>; a schedule (a list of actions) interleaves the thread's
  steps with the device's completions. Each \<^verbatim>\<open>atomic_t\<close> operation and each call of a
  completion handler is one indivisible step.

  Every observable effect (a bio handed to the device, \<^verbatim>\<open>ki_complete\<close>, a wake-up, a
  bio's storage freed, pages released) is appended to \<open>trace\<close>, newest first.
  Fields of \<^verbatim>\<open>struct bio\<close> that no property below reads (\<^verbatim>\<open>bi_opf\<close>,
  \<^verbatim>\<open>bi_write_hint\<close>, \<^verbatim>\<open>bi_ioprio\<close>, \<^verbatim>\<open>bi_bdev\<close>) are left out.
\<close>

subsection \<open>Data model\<close>

datatype blk_status_t =
  BLK_STS_OK | BLK_STS_NOTSUPP | BLK_STS_TIMEOUT | BLK_STS_NOSPC | BLK_STS_MEDIUM | BLK_STS_IOERR

datatype rw = READ | WRITE

text \<open>The pointers the code stores and compares with \<^verbatim>\<open>NULL\<close>.\<close>

datatype ptr = NULL | CURRENT | IOCB | DIO

datatype end_io_t = NO_END_IO | BLKDEV_BIO_END_IO_SIMPLE | BLKDEV_BIO_END_IO

datatype vecs = INLINE_VECS | KMALLOC_VECS | BIOSET_VECS

record bio =
  bi_status :: blk_status_t
  bi_size :: nat
  bi_sector :: nat
  bi_max_vecs :: nat
  bi_vcnt :: nat
  bi_io_vec :: vecs
  bi_private :: ptr
  bi_end_io :: end_io_t
  bi_cnt :: int
  BIO_REFFED :: bool
  bi_polled :: bool
  bi_freed :: nat

text \<open>
  \<open>bi_cnt\<close> is \<^verbatim>\<open>__bi_cnt\<close>; \<open>bi_vcnt\<close> counts the user pages the bio holds;
  \<open>bi_freed\<close> is not a field of the C struct: it counts how often the bio's storage
  has been given back, so that a double free is visible.
\<close>

record blkdev_dio =
  dio_ptr :: ptr
  dio_size :: nat
  dio_ref :: int
  multi_bio :: bool
  should_dirty :: bool
  is_sync :: bool

text \<open>
  \<open>dio_ptr\<close> is the union of \<^verbatim>\<open>iocb\<close> and \<^verbatim>\<open>waiter\<close>; the member
  \<^verbatim>\<open>struct bio bio\<close> is entry \<open>0\<close> of the bio store.
\<close>

record kiocb =
  ki_pos :: nat
  IOCB_NOWAIT :: bool
  IOCB_HIPRI :: bool
  IOCB_DSYNC :: bool
  ki_sync :: bool
  ki_cookie :: "nat option"

text \<open>
  \<open>ki_sync\<close> is \<^verbatim>\<open>is_sync_kiocb(iocb)\<close> (no \<^verbatim>\<open>ki_complete\<close> callback);
  the three flags are the bits of \<^verbatim>\<open>ki_flags\<close> the engine tests.
\<close>

record iov_iter =
  data_source :: rw
  iter_iovec :: bool
  iov_bounds :: "nat list"
  iov_pages :: "(nat \<times> bool) list"

text \<open>
  The iterator is an external capability. The model keeps what the engine asks of it:
  the direction, whether it is an \<^verbatim>\<open>ITER_IOVEC\<close>, the addresses and lengths of the
  user buffers (for the alignment query), and the pages still to be transferred, each
  with its byte length and whether pinning it succeeds.
\<close>

datatype event =
    EvStartPlug
  | EvFinishPlug
  | EvSubmit nat nat
  | EvEndio nat blk_status_t
  | EvKiComplete int
  | EvWake
  | EvFree nat
  | EvReleasePages nat bool
  | EvSetPagesDirty nat
  | EvCheckPagesDirty nat
  | EvAccountWrite nat
  | EvKmalloc nat
  | EvKfree

datatype pc =
    PC_entry
  | PC_loop nat nat
  | PC_wait int
  | PC_simple_wait nat int bool
  | PC_return int

text \<open>
  \<open>PC_loop bio pos\<close>: at the head of the \<^verbatim>\<open>for (;;)\<close> of \<^verbatim>\<open>__blkdev_direct_IO\<close>
  (line 232) with the locals \<^verbatim>\<open>bio\<close> and \<^verbatim>\<open>pos\<close>; \<open>PC_wait ret\<close>: in its wait loop
  (line 316) with the local \<^verbatim>\<open>ret\<close>; \<open>PC_simple_wait bio ret should_dirty\<close>: in the
  wait loop of \<^verbatim>\<open>__blkdev_direct_IO_simple\<close> (line 106); \<open>PC_return r\<close>: the entry
  point has returned \<open>r\<close>.
\<close>

record world =
  logical_block_size :: nat
  BIO_MAX_VECS :: nat
  kmalloc_ok :: bool
  iocb :: kiocb
  iter :: iov_iter
  dio :: blkdev_dio
  nbios :: nat
  bios :: "nat \<Rightarrow> bio"
  queue :: "nat list"
  trace :: "event list"
  pc :: pc

text \<open>
  \<open>logical_block_size\<close> is \<^verbatim>\<open>bdev_logical_block_size(bdev)\<close>. \<open>BIO_MAX_VECS\<close> is a
  constant of \<^verbatim>\<open>include/linux/bio.h\<close>, which is not part of the sources at hand: it
  is a parameter of the model. \<open>kmalloc_ok\<close> says whether \<^verbatim>\<open>kmalloc_array\<close> succeeds.
  \<open>queue\<close> holds the bios handed to the device and not completed yet.
\<close>

abbreviation EIO :: int where "EIO \<equiv> 5"
abbreviation EAGAIN :: int where "EAGAIN \<equiv> 11"
abbreviation ENOMEM :: int where "ENOMEM \<equiv> 12"
abbreviation EFAULT :: int where "EFAULT \<equiv> 14"
abbreviation EINVAL :: int where "EINVAL \<equiv> 22"
abbreviation EIOCBQUEUED :: int where "EIOCBQUEUED \<equiv> 529"

definition DIO_INLINE_BIO_VECS :: nat where
  "DIO_INLINE_BIO_VECS = 4"

subsection \<open>External collaborators\<close>

text \<open>
  The functions of this subsection belong to the block layer, the iterator library and
  the scheduler; their code is not in \<^verbatim>\<open>block/fops.c\<close>. Each is modelled by what the
  engine relies on.
\<close>

definition emit :: "event \<Rightarrow> world \<Rightarrow> world" where
  "emit e w = w\<lparr>trace := e # trace w\<rparr>"

definition upd_bio :: "nat \<Rightarrow> (bio \<Rightarrow> bio) \<Rightarrow> world \<Rightarrow> world" where
  "upd_bio b f w = w\<lparr>bios := (bios w)(b := f (bios w b))\<rparr>"

definition upd_dio :: "(blkdev_dio \<Rightarrow> blkdev_dio) \<Rightarrow> world \<Rightarrow> world" where
  "upd_dio f w = w\<lparr>dio := f (dio w)\<rparr>"

text \<open>
  Modelled from the spec: the iterator's ``remaining-length query'' and ``alignment
  query''. \<^verbatim>\<open>iov_iter_alignment\<close> is the bitwise or of every buffer address and length.
\<close>

definition iov_iter_count :: "iov_iter \<Rightarrow> nat" where
  "iov_iter_count i = sum_list (map fst (iov_pages i))"

definition iov_iter_alignment :: "iov_iter \<Rightarrow> nat" where
  "iov_iter_alignment i = foldr (OR) (iov_bounds i) 0"

text \<open>
  Modelled from the spec: ``compute the number of pages needed for the next Segment,
  capped at the device's maximum segment capacity''.
\<close>

definition bio_iov_vecs_to_alloc :: "iov_iter \<Rightarrow> nat \<Rightarrow> nat" where
  "bio_iov_vecs_to_alloc i max_segs = min (length (iov_pages i)) max_segs"

definition bio_max_segs :: "world \<Rightarrow> nat \<Rightarrow> nat" where
  "bio_max_segs w nr_segs = min nr_segs (BIO_MAX_VECS w)"

text \<open>
  Modelled from the spec: ``translate status to an error''. Ok is 0, every other
  status a negative errno.
\<close>

fun blk_status_to_errno :: "blk_status_t \<Rightarrow> int" where
  "blk_status_to_errno BLK_STS_OK = 0"
| "blk_status_to_errno BLK_STS_NOTSUPP = - 95"
| "blk_status_to_errno BLK_STS_TIMEOUT = - 110"
| "blk_status_to_errno BLK_STS_NOSPC = - 28"
| "blk_status_to_errno BLK_STS_MEDIUM = - 61"
| "blk_status_to_errno BLK_STS_IOERR = - EIO"

text \<open>
  Modelled from the spec: the Segment Pool and the bio's ownership count. A new bio is
  zeroed, holds one reference and is not \<^verbatim>\<open>BIO_REFFED\<close>. \<^verbatim>\<open>bio_get\<close> takes a
  reference and sets \<^verbatim>\<open>BIO_REFFED\<close>; \<^verbatim>\<open>bio_put\<close> frees a bio that is not
  \<^verbatim>\<open>BIO_REFFED\<close> at once, and otherwise drops one reference and frees the bio when
  the count reaches zero. The new bio's index is the size of the store before the
  allocation.
\<close>

definition new_bio :: "nat \<Rightarrow> vecs \<Rightarrow> bio" where
  "new_bio nr_vecs v =
     \<lparr>bi_status = BLK_STS_OK, bi_size = 0, bi_sector = 0, bi_max_vecs = nr_vecs,
      bi_vcnt = 0, bi_io_vec = v, bi_private = NULL, bi_end_io = NO_END_IO,
      bi_cnt = 1, BIO_REFFED = False, bi_polled = False, bi_freed = 0\<rparr>"

definition bio_store :: "nat \<Rightarrow> vecs \<Rightarrow> world \<Rightarrow> world" where
  "bio_store nr_vecs v w =
     w\<lparr>nbios := nbios w + 1, bios := (bios w)(nbios w := new_bio nr_vecs v)\<rparr>"

definition bio_alloc_kiocb :: "nat \<Rightarrow> world \<Rightarrow> world" where
  "bio_alloc_kiocb nr_vecs w = bio_store nr_vecs BIOSET_VECS w"

definition bio_alloc :: "nat \<Rightarrow> world \<Rightarrow> world" where
  "bio_alloc nr_vecs w = bio_store nr_vecs BIOSET_VECS w"

definition bio_init :: "nat \<Rightarrow> vecs \<Rightarrow> world \<Rightarrow> world" where
  "bio_init nr_vecs v w = bio_store nr_vecs v w"

definition bio_get :: "nat \<Rightarrow> world \<Rightarrow> world" where
  "bio_get b w = upd_bio b (\<lambda>x. x\<lparr>BIO_REFFED := True, bi_cnt := bi_cnt x + 1\<rparr>) w"

definition bio_free :: "nat \<Rightarrow> world \<Rightarrow> world" where
  "bio_free b w = emit (EvFree b) (upd_bio b (\<lambda>x. x\<lparr>bi_freed := bi_freed x + 1\<rparr>) w)"

definition bio_put :: "nat \<Rightarrow> world \<Rightarrow> world" where
  "bio_put b w =
     (if \<not> BIO_REFFED (bios w b) then bio_free b w
      else let w = upd_bio b (\<lambda>x. x\<lparr>bi_cnt := bi_cnt x - 1\<rparr>) w
           in if bi_cnt (bios w b) = 0 then bio_free b w else w)"

text \<open>What \<^verbatim>\<open>bio_put\<close> does to the bio itself.\<close>

definition put :: "bio \<Rightarrow> bio" where
  "put x = x\<lparr>bi_cnt := (if BIO_REFFED x then bi_cnt x - 1 else bi_cnt x),
            bi_freed := (if \<not> BIO_REFFED x \<or> bi_cnt x = 1 then bi_freed x + 1 else bi_freed x)\<rparr>"

definition bio_clear_flag_REFFED :: "nat \<Rightarrow> world \<Rightarrow> world" where
  "bio_clear_flag_REFFED b w = upd_bio b (\<lambda>x. x\<lparr>BIO_REFFED := False\<rparr>) w"

text \<open>
  Modelled from the spec: ``release pages acquired by the current Segment'', with or
  without marking them dirty; \<^verbatim>\<open>bio_check_pages_dirty\<close> releases the pages with the
  dirty accounting of a read and drops the caller's reference to the bio.
\<close>

definition bio_release_pages :: "nat \<Rightarrow> bool \<Rightarrow> world \<Rightarrow> world" where
  "bio_release_pages b mark_dirty w =
     emit (EvReleasePages b mark_dirty) (upd_bio b (\<lambda>x. x\<lparr>bi_vcnt := 0\<rparr>) w)"

definition bio_set_pages_dirty :: "nat \<Rightarrow> world \<Rightarrow> world" where
  "bio_set_pages_dirty b w = emit (EvSetPagesDirty b) w"

definition bio_check_pages_dirty :: "nat \<Rightarrow> world \<Rightarrow> world" where
  "bio_check_pages_dirty b w =
     bio_put b (emit (EvCheckPagesDirty b) (upd_bio b (\<lambda>x. x\<lparr>bi_vcnt := 0\<rparr>) w))"

text \<open>
  Modelled from the spec: ``consume Iterator pages into the current Segment''. The bio
  takes pages from the front of the iterator, at most \<open>bi_max_vecs\<close> of them, and
  stops before a page that cannot be pinned. With no page taken the call fails
  (\<open>- EFAULT\<close>) and changes nothing; otherwise it returns 0.
\<close>

definition pages_for :: "nat \<Rightarrow> world \<Rightarrow> (nat \<times> bool) list" where
  "pages_for b w = takeWhile snd (take (bi_max_vecs (bios w b)) (iov_pages (iter w)))"

definition bio_iov_iter_get_pages :: "nat \<Rightarrow> world \<Rightarrow> int \<times> world" where
  "bio_iov_iter_get_pages b w =
     (let got = pages_for b w in
      if got = [] then (- EFAULT, w)
      else (0, upd_bio b (\<lambda>x. x\<lparr>bi_vcnt := bi_vcnt x + length got,
                                 bi_size := bi_size x + sum_list (map fst got)\<rparr>)
                 (w\<lparr>iter := (iter w)\<lparr>iov_pages := drop (length got) (iov_pages (iter w))\<rparr>\<rparr>)))"

text \<open>
  Modelled from the spec: the device queue ``accepting a Segment for dispatch'' and
  ``returning a pollable completion token'' (the token is the bio's index).
\<close>

definition submit_bio :: "nat \<Rightarrow> world \<Rightarrow> world" where
  "submit_bio b w = emit (EvSubmit b (bi_size (bios w b))) (w\<lparr>queue := queue w @ [b]\<rparr>)"

definition bio_set_polled :: "nat \<Rightarrow> world \<Rightarrow> world" where
  "bio_set_polled b w = upd_bio b (\<lambda>x. x\<lparr>bi_polled := True\<rparr>) w"

definition blk_start_plug :: "world \<Rightarrow> world" where
  "blk_start_plug w = emit EvStartPlug w"

definition blk_finish_plug :: "world \<Rightarrow> world" where
  "blk_finish_plug w = emit EvFinishPlug w"

definition blk_wake_io_task :: "world \<Rightarrow> world" where
  "blk_wake_io_task w = emit EvWake w"

definition ki_complete :: "int \<Rightarrow> world \<Rightarrow> world" where
  "ki_complete ret w = emit (EvKiComplete ret) w"

definition task_io_account_write :: "nat \<Rightarrow> world \<Rightarrow> world" where
  "task_io_account_write n w = emit (EvAccountWrite n) w"

definition atomic_dec_and_test :: "world \<Rightarrow> bool \<times> world" where
  "atomic_dec_and_test w =
     (dio_ref (dio w) - 1 = 0, upd_dio (\<lambda>d. d\<lparr>dio_ref := dio_ref d - 1\<rparr>) w)"

definition atomic_inc :: "world \<Rightarrow> world" where
  "atomic_inc w = upd_dio (\<lambda>d. d\<lparr>dio_ref := dio_ref d + 1\<rparr>) w"

text \<open>
  The alignment test of lines 66 and 206: \<^verbatim>\<open>(pos | iov_iter_alignment(iter)) &
  (bdev_logical_block_size(bdev) - 1)\<close>, the subtraction being one of \<^verbatim>\<open>unsigned int\<close>.
\<close>

definition misaligned :: "world \<Rightarrow> bool" where
  "misaligned w \<longleftrightarrow>
     (ki_pos (iocb w) OR iov_iter_alignment (iter w)) AND
       ((logical_block_size w + 2 ^ 32 - 1) mod 2 ^ 32) \<noteq> 0"

text \<open>The conversion of line 330, \<^verbatim>\<open>ret = dio->size\<close> with \<^verbatim>\<open>int ret\<close>.\<close>

definition int_of_size :: "nat \<Rightarrow> int" where
  "int_of_size n = (let r = int (n mod 2 ^ 32) in if r < 2 ^ 31 then r else r - 2 ^ 32)"

subsection \<open>The simple single-bio path\<close>

text \<open>\<^verbatim>\<open>blkdev_bio_end_io_simple\<close>, lines 46--52.\<close>

definition blkdev_bio_end_io_simple :: "nat \<Rightarrow> world \<Rightarrow> world" where
  "blkdev_bio_end_io_simple b w =
     blk_wake_io_task (upd_bio b (\<lambda>x. x\<lparr>bi_private := NULL\<rparr>) w)"

text \<open>The label \<^verbatim>\<open>out\<close> of \<^verbatim>\<open>__blkdev_direct_IO_simple\<close>, lines 120--126.\<close>

definition simple_out :: "nat \<Rightarrow> int \<Rightarrow> world \<Rightarrow> world" where
  "simple_out b ret w =
     (let w = (if bi_io_vec (bios w b) \<noteq> INLINE_VECS then emit EvKfree w else w)
      in w\<lparr>pc := PC_return ret\<rparr>)"

text \<open>\<^verbatim>\<open>__blkdev_direct_IO_simple\<close> up to its wait loop, lines 54--105.\<close>

definition uu_blkdev_direct_IO_simple :: "nat \<Rightarrow> world \<Rightarrow> world" where
  "uu_blkdev_direct_IO_simple nr_pages w =
     (let pos = ki_pos (iocb w) in
      if misaligned w then w\<lparr>pc := PC_return (- EINVAL)\<rparr>
      else if \<not> nr_pages \<le> DIO_INLINE_BIO_VECS \<and> \<not> kmalloc_ok w
      then w\<lparr>pc := PC_return (- ENOMEM)\<rparr>
      else
        let v = (if nr_pages \<le> DIO_INLINE_BIO_VECS then INLINE_VECS else KMALLOC_VECS);
            w = (if v = KMALLOC_VECS then emit (EvKmalloc nr_pages) w else w);
            b = nbios w;
            w = bio_init nr_pages v w;
            w = upd_bio b (\<lambda>x. x\<lparr>bi_sector := pos div 2 ^ 9, bi_private := CURRENT,
                                   bi_end_io := BLKDEV_BIO_END_IO_SIMPLE\<rparr>) w
        in case bio_iov_iter_get_pages b w of (ret, w) \<Rightarrow>
           if ret \<noteq> 0 then simple_out b ret w
           else
             let ret = int (bi_size (bios w b));
                 sd = (data_source (iter w) = READ \<and> iter_iovec (iter w));
                 w = (if data_source (iter w) = READ then w
                      else task_io_account_write (bi_size (bios w b)) w);
                 w = (if IOCB_HIPRI (iocb w) then bio_set_polled b w else w);
                 w = submit_bio b w
             in w\<lparr>pc := PC_simple_wait b ret sd\<rparr>)"

text \<open>
  The wait loop and the tail of \<^verbatim>\<open>__blkdev_direct_IO_simple\<close>, lines 106--126: the
  thread sleeps (or polls) while \<^verbatim>\<open>bio.bi_private\<close> is set.
\<close>

definition uu_blkdev_direct_IO_simple_wait :: "nat \<Rightarrow> int \<Rightarrow> bool \<Rightarrow> world \<Rightarrow> world" where
  "uu_blkdev_direct_IO_simple_wait b ret sd w =
     (if bi_private (bios w b) \<noteq> NULL then w
      else
        let w = bio_release_pages b sd w;
            ret = (if bi_status (bios w b) \<noteq> BLK_STS_OK
                   then blk_status_to_errno (bi_status (bios w b)) else ret)
        in simple_out b ret w)"

subsection \<open>The completion handler of the general path\<close>

text \<open>
  \<^verbatim>\<open>blkdev_bio_end_io\<close>, lines 152--189, in four blocks. \<^verbatim>\<open>dio->bio\<close> is bio 0.
  Lines 157--158: the sticky status.
\<close>

definition end_io_status :: "nat \<Rightarrow> world \<Rightarrow> world" where
  "end_io_status b w =
     (if bi_status (bios w b) \<noteq> BLK_STS_OK \<and> bi_status (bios w 0) = BLK_STS_OK
      then upd_bio 0 (\<lambda>x. x\<lparr>bi_status := bi_status (bios w b)\<rparr>) w else w)"

text \<open>Line 160: \<^verbatim>\<open>!dio->multi_bio || atomic_dec_and_test(&dio->ref)\<close>.\<close>

definition end_io_last :: "world \<Rightarrow> bool \<times> world" where
  "end_io_last w = (if \<not> multi_bio (dio w) then (True, w) else atomic_dec_and_test w)"

text \<open>Lines 161--180: the finalization, run by the last completion.\<close>

definition end_io_finalize :: "world \<Rightarrow> world" where
  "end_io_finalize w =
     (if \<not> is_sync (dio w) then
        let ret = (if bi_status (bios w 0) = BLK_STS_OK then int (dio_size (dio w))
                   else blk_status_to_errno (bi_status (bios w 0)));
            w = (if bi_status (bios w 0) = BLK_STS_OK
                 then w\<lparr>iocb := (iocb w)\<lparr>ki_pos := ki_pos (iocb w) + dio_size (dio w)\<rparr>\<rparr>
                 else w);
            w = ki_complete ret w
        in if multi_bio (dio w) then bio_put 0 w else w
      else
        blk_wake_io_task (upd_dio (\<lambda>d. d\<lparr>dio_ptr := NULL\<rparr>) w))"

text \<open>Lines 183--188: the completed bio's pages and the bio itself.\<close>

definition end_io_release :: "bool \<Rightarrow> nat \<Rightarrow> world \<Rightarrow> world" where
  "end_io_release sd b w =
     (if sd then bio_check_pages_dirty b w
      else bio_put b (bio_release_pages b False w))"

definition blkdev_bio_end_io :: "nat \<Rightarrow> world \<Rightarrow> world" where
  "blkdev_bio_end_io b w =
     (let sd = should_dirty (dio w);
          w = end_io_status b w;
          (last, w) = end_io_last w;
          w = (if last then end_io_finalize w else w)
      in end_io_release sd b w)"

text \<open>
  \<^verbatim>\<open>bio_endio\<close> calls the handler stored in the bio, which reads the outcome from the
  bio's own \<^verbatim>\<open>bi_status\<close>.
\<close>

definition bio_endio :: "nat \<Rightarrow> world \<Rightarrow> world" where
  "bio_endio b w =
     (let w = emit (EvEndio b (bi_status (bios w b))) w in
      case bi_end_io (bios w b) of
        BLKDEV_BIO_END_IO \<Rightarrow> blkdev_bio_end_io b w
      | BLKDEV_BIO_END_IO_SIMPLE \<Rightarrow> blkdev_bio_end_io_simple b w
      | NO_END_IO \<Rightarrow> w)"

subsection \<open>The general path\<close>

text \<open>\<^verbatim>\<open>__blkdev_direct_IO\<close> up to its submission loop, lines 191--230.\<close>

definition uu_blkdev_direct_IO :: "nat \<Rightarrow> world \<Rightarrow> world" where
  "uu_blkdev_direct_IO nr_pages w =
     (let pos = ki_pos (iocb w) in
      if misaligned w then w\<lparr>pc := PC_return (- EINVAL)\<rparr>
      else
        let bio = nbios w;
            w = bio_alloc_kiocb nr_pages w;
            w = upd_dio (\<lambda>d. d\<lparr>is_sync := ki_sync (iocb w)\<rparr>) w;
            w = (if is_sync (dio w) then bio_get bio (upd_dio (\<lambda>d. d\<lparr>dio_ptr := CURRENT\<rparr>) w)
                 else upd_dio (\<lambda>d. d\<lparr>dio_ptr := IOCB\<rparr>) w);
            w = upd_dio (\<lambda>d. d\<lparr>dio_size := 0, multi_bio := False,
                    should_dirty := (data_source (iter w) = READ \<and> iter_iovec (iter w))\<rparr>) w;
            w = (if \<not> IOCB_HIPRI (iocb w) then blk_start_plug w else w)
        in w\<lparr>pc := PC_loop bio pos\<rparr>)"

text \<open>
  The code after the submission loop up to the wait loop, lines 310--314. The locals
  \<^verbatim>\<open>is_poll\<close> and \<^verbatim>\<open>is_sync\<close> were read from the iocb at entry.
\<close>

definition loop_break :: "int \<Rightarrow> world \<Rightarrow> world" where
  "loop_break ret w =
     (let w = (if \<not> IOCB_HIPRI (iocb w) then blk_finish_plug w else w)
      in if \<not> ki_sync (iocb w) then w\<lparr>pc := PC_return (- EIOCBQUEUED)\<rparr>
         else w\<lparr>pc := PC_wait ret\<rparr>)"

text \<open>Lines 233--238: the bio's fields.\<close>

definition loop_prepare :: "nat \<Rightarrow> nat \<Rightarrow> world \<Rightarrow> world" where
  "loop_prepare bio pos w =
     upd_bio bio (\<lambda>x. x\<lparr>bi_sector := pos div 2 ^ 9, bi_private := DIO,
                        bi_end_io := BLKDEV_BIO_END_IO\<rparr>) w"

text \<open>Lines 241--245: the pages could not be acquired.\<close>

definition loop_fail :: "nat \<Rightarrow> int \<Rightarrow> world \<Rightarrow> world" where
  "loop_fail bio ret w =
     loop_break ret (bio_endio bio (upd_bio bio (\<lambda>x. x\<lparr>bi_status := BLK_STS_IOERR\<rparr>) w))"

text \<open>Lines 255--261: a nonblocking request that needs another bio.\<close>

definition loop_abort :: "nat \<Rightarrow> world \<Rightarrow> world" where
  "loop_abort bio w =
     (let w = bio_release_pages bio False w;
          w = bio_clear_flag_REFFED bio w;
          w = bio_put bio w;
          w = blk_finish_plug w
      in w\<lparr>pc := PC_return (- EAGAIN)\<rparr>)"

text \<open>Lines 265--273: dirtying or write accounting, and the byte total.\<close>

definition loop_account :: "nat \<Rightarrow> world \<Rightarrow> world" where
  "loop_account bio w =
     (let w = (if data_source (iter w) = READ
               then (if should_dirty (dio w) then bio_set_pages_dirty bio w else w)
               else task_io_account_write (bi_size (bios w bio)) w)
      in upd_dio (\<lambda>d. d\<lparr>dio_size := dio_size d + bi_size (bios w bio)\<rparr>) w)"

text \<open>Lines 277--290: the last bio of the request.\<close>

definition loop_last :: "nat \<Rightarrow> int \<Rightarrow> world \<Rightarrow> world" where
  "loop_last bio ret w =
     (let w = (if IOCB_HIPRI (iocb w) then bio_set_polled bio w else w);
          w = submit_bio bio w;
          w = (if IOCB_HIPRI (iocb w)
               then w\<lparr>iocb := (iocb w)\<lparr>ki_cookie := Some bio\<rparr>\<rparr> else w)
      in loop_break ret w)"

text \<open>Lines 292--307: another bio is needed.\<close>

definition loop_more :: "nat \<Rightarrow> nat \<Rightarrow> nat \<Rightarrow> world \<Rightarrow> world" where
  "loop_more bio pos nr_pages w =
     (let w = (if \<not> multi_bio (dio w) then
                 upd_dio (\<lambda>d. d\<lparr>multi_bio := True, dio_ref := 2\<rparr>)
                   (if \<not> ki_sync (iocb w) then bio_get bio w else w)
               else atomic_inc w);
          w = submit_bio bio w;
          next_bio = nbios w;
          w = bio_alloc nr_pages w
      in w\<lparr>pc := PC_loop next_bio pos\<rparr>)"

text \<open>One pass through the submission loop, lines 232--308.\<close>

definition uu_blkdev_direct_IO_loop :: "nat \<Rightarrow> nat \<Rightarrow> world \<Rightarrow> world" where
  "uu_blkdev_direct_IO_loop bio pos w =
     (let w = loop_prepare bio pos w;
          (ret, w) = bio_iov_iter_get_pages bio w
      in if ret \<noteq> 0 then loop_fail bio ret w
         else if IOCB_NOWAIT (iocb w) \<and> iov_iter_count (iter w) \<noteq> 0 then loop_abort bio w
         else
           let w = loop_account bio w;
               pos = pos + bi_size (bios w bio);
               nr_pages = bio_iov_vecs_to_alloc (iter w) (BIO_MAX_VECS w)
           in if nr_pages = 0 then loop_last bio ret w
              else loop_more bio pos nr_pages w)"

text \<open>
  The wait loop and the tail of \<^verbatim>\<open>__blkdev_direct_IO\<close>, lines 316--333: the thread
  sleeps (or polls) while \<^verbatim>\<open>dio->waiter\<close> is set.
\<close>

definition uu_blkdev_direct_IO_wait :: "int \<Rightarrow> world \<Rightarrow> world" where
  "uu_blkdev_direct_IO_wait ret w =
     (if dio_ptr (dio w) \<noteq> NULL then w
      else
        let ret = (if ret = 0 then blk_status_to_errno (bi_status (bios w 0)) else ret);
            ret = (if ret = 0 then int_of_size (dio_size (dio w)) else ret);
            w = bio_put 0 w
        in w\<lparr>pc := PC_return ret\<rparr>)"

subsection \<open>The entry point\<close>

text \<open>\<^verbatim>\<open>blkdev_direct_IO\<close>, lines 336--348.\<close>

definition blkdev_direct_IO :: "world \<Rightarrow> world" where
  "blkdev_direct_IO w =
     (if iov_iter_count (iter w) = 0 then w\<lparr>pc := PC_return 0\<rparr>
      else
        let nr_pages = bio_iov_vecs_to_alloc (iter w) (BIO_MAX_VECS w + 1)
        in if ki_sync (iocb w) \<and> nr_pages \<le> BIO_MAX_VECS w
           then uu_blkdev_direct_IO_simple nr_pages w
           else uu_blkdev_direct_IO (bio_max_segs w nr_pages) w)"

subsection \<open>Schedules\<close>

text \<open>
  \<open>Run\<close>: the submitting thread runs to its next cut point. \<open>Complete b s\<close>: the device
  completes the queued bio \<open>b\<close> with outcome \<open>s\<close>; it stores a non-ok outcome in the
  bio's \<^verbatim>\<open>bi_status\<close> (as lines 242--243 do for a page failure) and calls
  \<^verbatim>\<open>bio_endio\<close>. A bio that is not queued cannot complete.
\<close>

datatype action = Run | Complete nat blk_status_t

definition thread_step :: "world \<Rightarrow> world" where
  "thread_step w =
     (case pc w of
        PC_entry \<Rightarrow> blkdev_direct_IO w
      | PC_loop bio pos \<Rightarrow> uu_blkdev_direct_IO_loop bio pos w
      | PC_wait ret \<Rightarrow> uu_blkdev_direct_IO_wait ret w
      | PC_simple_wait b ret sd \<Rightarrow> uu_blkdev_direct_IO_simple_wait b ret sd w
      | PC_return r \<Rightarrow> w)"

definition device_complete :: "nat \<Rightarrow> blk_status_t \<Rightarrow> world \<Rightarrow> world" where
  "device_complete b s w =
     (if b \<in> set (queue w) then
        bio_endio b
          ((if s \<noteq> BLK_STS_OK then upd_bio b (\<lambda>x. x\<lparr>bi_status := s\<rparr>) w else w)
             \<lparr>queue := removeAll b (queue w)\<rparr>)
      else w)"

fun step :: "action \<Rightarrow> world \<Rightarrow> world" where
  "step Run w = thread_step w"
| "step (Complete b s) w = device_complete b s w"

fun run :: "action list \<Rightarrow> world \<Rightarrow> world" where
  "run [] w = w"
| "run (a # as) w = run as (step a w)"

text \<open>A request starts on an empty bio store, an empty device queue and an empty trace.\<close>

definition fresh :: "world \<Rightarrow> world" where
  "fresh w = w\<lparr>nbios := 0, queue := [], trace := [], pc := PC_entry\<rparr>"

subsection \<open>Observations on the trace\<close>

text \<open>The finalizations: \<^verbatim>\<open>ki_complete\<close> or the wake-up of the waiter.\<close>

fun is_finalize :: "event \<Rightarrow> bool" where
  "is_finalize (EvKiComplete r) = True"
| "is_finalize EvWake = True"
| "is_finalize e = False"

definition nfin :: "world \<Rightarrow> nat" where
  "nfin w = length (filter is_finalize (trace w))"

text \<open>The completions, newest first: the bio and the status its handler read.\<close>

fun outcomes :: "event list \<Rightarrow> (nat \<times> blk_status_t) list" where
  "outcomes [] = []"
| "outcomes (EvEndio b s # t) = (b, s) # outcomes t"
| "outcomes (e # t) = outcomes t"

definition ended :: "world \<Rightarrow> nat list" where
  "ended w = map fst (outcomes (trace w))"

text \<open>The bios handed to the device, newest first, each with its byte length.\<close>

fun submitted :: "event list \<Rightarrow> (nat \<times> nat) list" where
  "submitted [] = []"
| "submitted (EvSubmit b n # t) = (b, n) # submitted t"
| "submitted (e # t) = submitted t"

definition queued_bytes :: "world \<Rightarrow> nat" where
  "queued_bytes w = sum_list (map snd (submitted (trace w)))"

subsection \<open>The branches of the submission loop\<close>

text \<open>
  The pages the iterator keeps after the bio \<open>b\<close> has taken its share, and the state
  after lines 233--240 when the pages could be acquired.
\<close>

definition rest_pages :: "nat \<Rightarrow> world \<Rightarrow> (nat \<times> bool) list" where
  "rest_pages b w = drop (length (pages_for b w)) (iov_pages (iter w))"

definition bytes_left :: "nat \<Rightarrow> world \<Rightarrow> nat" where
  "bytes_left b w = sum_list (map fst (rest_pages b w))"

definition acquired :: "nat \<Rightarrow> nat \<Rightarrow> world \<Rightarrow> world" where
  "acquired b pos w = snd (bio_iov_iter_get_pages b (loop_prepare b pos w))"

text \<open>
  A request needs another bio when the first bio, of capacity \<open>nr_pages\<close>, gets its
  pages and the iterator still has bytes left after it (the test of line 255).
\<close>

definition needs_another_bio :: "nat \<Rightarrow> iov_iter \<Rightarrow> bool" where
  "needs_another_bio nr_pages i \<longleftrightarrow>
     (let got = takeWhile snd (take nr_pages (iov_pages i))
      in got \<noteq> [] \<and> sum_list (map fst (drop (length got) (iov_pages i))) \<noteq> 0)"

subsection \<open>Example requests\<close>

definition example_iocb :: "nat \<Rightarrow> bool \<Rightarrow> bool \<Rightarrow> kiocb" where
  "example_iocb pos sync nowait =
     \<lparr>ki_pos = pos, IOCB_NOWAIT = nowait, IOCB_HIPRI = False, IOCB_DSYNC = False,
      ki_sync = sync, ki_cookie = None\<rparr>"

definition example_iter :: "rw \<Rightarrow> (nat \<times> bool) list \<Rightarrow> iov_iter" where
  "example_iter d ps =
     \<lparr>data_source = d, iter_iovec = True, iov_bounds = [4096, 1536], iov_pages = ps\<rparr>"

text \<open>
  The dio's storage comes from a pool and is not cleared: \<^verbatim>\<open>__blkdev_direct_IO\<close>
  has to initialise what it uses.
\<close>

definition junk_dio :: blkdev_dio where
  "junk_dio =
     \<lparr>dio_ptr = NULL, dio_size = 77, dio_ref = 7, multi_bio = True, should_dirty = True,
      is_sync = True\<rparr>"

definition example_world :: "nat \<Rightarrow> kiocb \<Rightarrow> iov_iter \<Rightarrow> world" where
  "example_world max_vecs cb it =
     \<lparr>logical_block_size = 512, BIO_MAX_VECS = max_vecs, kmalloc_ok = True, iocb = cb,
      iter = it, dio = junk_dio, nbios = 0, bios = (\<lambda>_. new_bio 0 BIOSET_VECS),
      queue = [], trace = [], pc = PC_entry\<rparr>"

lemmas example_defs = example_world_def example_iocb_def example_iter_def junk_dio_def

definition five_pages :: "(nat \<times> bool) list" where
  "five_pages = [(4096, True), (4096, True), (4096, True), (4096, True), (4096, True)]"

subsection \<open>Invariants of the general path\<close>

text \<open>
  After the submission loop: every bio is queued or has completed. With \<open>multi_bio\<close>
  the reference count is the number of queued bios and the request is finalized exactly
  when none is left; without it there is one bio, finalized exactly when it has
  completed.
\<close>

definition after_loop :: "world \<Rightarrow> bool" where
  "after_loop w \<longleftrightarrow>
     length (queue w) + length (ended w) = nbios w \<and>
     1 \<le> nbios w \<and>
     (multi_bio (dio w) \<longleftrightarrow> 2 \<le> nbios w) \<and>
     (if multi_bio (dio w)
      then dio_ref (dio w) = int (length (queue w)) \<and>
           nfin w = (if queue w = [] then 1 else 0)
      else nfin w + length (queue w) = 1)"

text \<open>After the abort of lines 255--261: the only bio is gone and nothing happened.\<close>

definition aborted :: "world \<Rightarrow> bool" where
  "aborted w \<longleftrightarrow>
     queue w = [] \<and> ended w = [] \<and> nbios w = 1 \<and> \<not> multi_bio (dio w) \<and> nfin w = 0"

text \<open>
  At the head of the loop with the current bio \<open>b\<close>: the bios before \<open>b\<close> are queued
  or have completed, the request is not finalized, \<open>multi_bio\<close> is set from the second
  bio on, and the reference count is the number of queued bios plus one for \<open>b\<close>.
  A nonblocking request that got past its first bio has no bytes left.
\<close>

definition in_loop :: "nat \<Rightarrow> world \<Rightarrow> bool" where
  "in_loop b w \<longleftrightarrow>
     nbios w = b + 1 \<and>
     (\<forall>x\<in>set (queue w) \<union> set (ended w). x < b) \<and>
     length (queue w) + length (ended w) = b \<and>
     nfin w = 0 \<and>
     (multi_bio (dio w) \<longleftrightarrow> b \<noteq> 0) \<and>
     (multi_bio (dio w) \<longrightarrow>
        dio_ref (dio w) = 1 + int (length (queue w)) \<and>
        (IOCB_NOWAIT (iocb w) \<longrightarrow> iov_iter_count (iter w) = 0))"

definition dio_inv :: "world \<Rightarrow> bool" where
  "dio_inv w \<longleftrightarrow>
     distinct (queue w) \<and> distinct (ended w) \<and>
     (\<forall>x\<in>set (queue w). bi_end_io (bios w x) = BLKDEV_BIO_END_IO \<and> x \<notin> set (ended w)) \<and>
     is_sync (dio w) = ki_sync (iocb w) \<and>
     (case pc w of
        PC_entry \<Rightarrow> False
      | PC_loop b pos \<Rightarrow> in_loop b w
      | PC_wait r \<Rightarrow> ki_sync (iocb w) \<and> after_loop w
      | PC_simple_wait b r sd \<Rightarrow> False
      | PC_return r \<Rightarrow> after_loop w \<or> aborted w)"

text \<open>The thread has not left the submission code yet.\<close>

fun submitting :: "pc \<Rightarrow> bool" where
  "submitting PC_entry = True"
| "submitting (PC_loop b pos) = True"
| "submitting p = False"

text \<open>The device delivers the completions \<open>cs\<close>, one after the other.\<close>

definition completions :: "(nat \<times> blk_status_t) list \<Rightarrow> action list" where
  "completions cs = map (\<lambda>(x, s). Complete x s) cs"

text \<open>The results handed to \<^verbatim>\<open>ki_complete\<close>, newest first.\<close>

fun reports :: "event list \<Rightarrow> int list" where
  "reports [] = []"
| "reports (EvKiComplete r # t) = r # reports t"
| "reports (e # t) = reports t"

text \<open>
  The byte total is the sum of the lengths handed to the device, and every result that
  is not an error is that total.
\<close>

definition size_inv :: "world \<Rightarrow> bool" where
  "size_inv w \<longleftrightarrow>
     dio_size (dio w) = queued_bytes w \<and>
     (\<forall>r\<in>set (reports (trace w)). r < 0 \<or> r = int (dio_size (dio w))) \<and>
     (case pc w of
        PC_wait r \<Rightarrow> r \<le> 0
      | PC_return r \<Rightarrow> r < 0 \<or> r = int_of_size (dio_size (dio w))
      | _ \<Rightarrow> True)"

subsection \<open>The sticky status\<close>

text \<open>
  The value of \<^verbatim>\<open>dio->bio.bi_status\<close> after the completions \<open>cs\<close> (newest first,
  as the trace keeps them): a non-ok status is recorded while the field is ok, and a
  non-ok status of bio 0, whose \<^verbatim>\<open>bi_status\<close> is that very field, is always in it.
\<close>

fun sticky :: "(nat \<times> blk_status_t) list \<Rightarrow> blk_status_t" where
  "sticky [] = BLK_STS_OK"
| "sticky ((b, s) # older) =
     (if s \<noteq> BLK_STS_OK \<and> (b = 0 \<or> sticky older = BLK_STS_OK) then s else sticky older)"

text \<open>
  The spec's rule, on the completions in arrival order: the first non-ok status, or ok
  when every completion was ok.
\<close>

fun first_error :: "(nat \<times> blk_status_t) list \<Rightarrow> blk_status_t" where
  "first_error [] = BLK_STS_OK"
| "first_error ((b, s) # later) = (if s \<noteq> BLK_STS_OK then s else first_error later)"

text \<open>After a page failure: the request can only end in an error.\<close>

definition err_inv :: "world \<Rightarrow> bool" where
  "err_inv w \<longleftrightarrow>
     bi_status (bios w 0) \<noteq> BLK_STS_OK \<and> ended w \<noteq> [] \<and>
     (\<forall>r\<in>set (reports (trace w)). r < 0) \<and>
     (case pc w of PC_wait r \<Rightarrow> r < 0 | PC_return r \<Rightarrow> r < 0 | _ \<Rightarrow> False)"

subsection \<open>The waiter\<close>

text \<open>
  A synchronous request sleeps while \<^verbatim>\<open>dio->waiter\<close> is set (lines 316--325); the
  finalization clears it (line 178).
\<close>

fun at_first :: "pc \<Rightarrow> bool" where
  "at_first (PC_loop b pos) = (b = 0)"
| "at_first p = False"

fun returned :: "pc \<Rightarrow> bool" where
  "returned (PC_return r) = True"
| "returned p = False"

definition waiter_inv :: "world \<Rightarrow> bool" where
  "waiter_inv w \<longleftrightarrow> (ki_sync (iocb w) \<longrightarrow> (dio_ptr (dio w) = NULL) = (nfin w = 1))"

subsection \<open>Completion handlers that overlap the thread\<close>

text \<open>
  \<^verbatim>\<open>blkdev_bio_end_io\<close> reads \<^verbatim>\<open>dio->should_dirty\<close> into a local at line 155 and
  wakes the waiter at lines 178--179, before it releases its own bio at lines
  183--188: the submitting thread, and the handlers of other bios, can run in between.
  \<open>end_io_head\<close> is the handler up to line 181; it returns the local with the state.
  \<open>end_io_release\<close> is the rest.
\<close>

definition end_io_head :: "nat \<Rightarrow> world \<Rightarrow> bool \<times> world" where
  "end_io_head b w =
     (let sd = should_dirty (dio w);
          w = end_io_status b w;
          (last, w) = end_io_last w;
          w = (if last then end_io_finalize w else w)
      in (sd, w))"

text \<open>
  Schedules that cut the handler there. \<open>Thread\<close>: the submitting thread runs to its
  next cut point (a handler it calls itself, at line 244, runs within that step).
  \<open>Arrive b s\<close>: the device completes the queued bio \<open>b\<close> with outcome \<open>s\<close> and the
  handler runs up to line 181. \<open>Finish b\<close>: the handler of \<open>b\<close> runs lines 183--188.
  The second component of the state lists the handlers that are between the two, each
  with its bio and its local \<^verbatim>\<open>should_dirty\<close>.
\<close>

datatype fine_action = Thread | Arrive nat blk_status_t | Finish nat

fun fine_step ::
  "fine_action \<Rightarrow> world \<times> (nat \<times> bool) list \<Rightarrow> world \<times> (nat \<times> bool) list" where
  "fine_step Thread (w, hs) = (thread_step w, hs)"
| "fine_step (Arrive b s) (w, hs) =
     (if b \<in> set (queue w) \<and> bi_end_io (bios w b) = BLKDEV_BIO_END_IO then
        let w = (if s \<noteq> BLK_STS_OK then upd_bio b (\<lambda>x. x\<lparr>bi_status := s\<rparr>) w else w)
                  \<lparr>queue := removeAll b (queue w)\<rparr>;
            w = emit (EvEndio b (bi_status (bios w b))) w;
            (sd, w) = end_io_head b w
        in (w, hs @ [(b, sd)])
      else (device_complete b s w, hs))"
| "fine_step (Finish b) (w, hs) =
     (case map_of hs b of
        None \<Rightarrow> (w, hs)
      | Some sd \<Rightarrow> (end_io_release sd b w, filter (\<lambda>h. fst h \<noteq> b) hs))"

fun fine_run ::
  "fine_action list \<Rightarrow> world \<times> (nat \<times> bool) list \<Rightarrow> world \<times> (nat \<times> bool) list" where
  "fine_run [] c = c"
| "fine_run (a # as) c = fine_run as (fine_step a c)"

subsection \<open>The references to the first bio\<close>

text \<open>
  The storage of the dio is the storage of bio 0. \<open>handled\<close>: the handler of bio 0 has
  run to its end, so it has dropped the reference of bio 0 itself. \<open>released\<close>: the
  holder of the extra reference has dropped it, which is the finalization for an
  asynchronous request (line 177) and the submitting thread after its wait for a
  synchronous one (line 332).
\<close>

definition handled :: "world \<Rightarrow> (nat \<times> bool) list \<Rightarrow> bool" where
  "handled w hs \<longleftrightarrow> 0 \<in> set (ended w) \<and> map_of hs 0 = None"

definition released :: "world \<Rightarrow> bool" where
  "released w = (if ki_sync (iocb w) then returned (pc w) else nfin w = 1)"

definition ref_inv :: "world \<Rightarrow> (nat \<times> bool) list \<Rightarrow> bool" where
  "ref_inv w hs \<longleftrightarrow>
     (\<forall>h\<in>set hs. fst h \<in> set (ended w)) \<and>
     (at_first (pc w) \<longrightarrow>
        BIO_REFFED (bios w 0) = ki_sync (iocb w) \<and>
        bi_cnt (bios w 0) = (if ki_sync (iocb w) then 2 else 1) \<and>
        bi_freed (bios w 0) = 0) \<and>
     (multi_bio (dio w) \<longrightarrow>
        BIO_REFFED (bios w 0) \<and>
        (0 \<in> set (queue w) \<or> 0 \<in> set (ended w)) \<and>
        (released w \<longrightarrow> nfin w = 1) \<and>
        bi_cnt (bios w 0) =
          (if handled w hs then 0 else 1) + (if released w then 0 else 1) \<and>
        bi_freed (bios w 0) = (if handled w hs \<and> released w then 1 else 0))"

definition fine_inv :: "world \<times> (nat \<times> bool) list \<Rightarrow> bool" where
  "fine_inv c \<longleftrightarrow> dio_inv (fst c) \<and> waiter_inv (fst c) \<and> ref_inv (fst c) (snd c)"

section \<open>Properties\<close>

subsection \<open>How each operation changes the state\<close>

lemma emit_simps [simp]:
  "logical_block_size (emit e w) = logical_block_size w"
  "BIO_MAX_VECS (emit e w) = BIO_MAX_VECS w"
  "kmalloc_ok (emit e w) = kmalloc_ok w"
  "iocb (emit e w) = iocb w"
  "iter (emit e w) = iter w"
  "dio (emit e w) = dio w"
  "nbios (emit e w) = nbios w"
  "bios (emit e w) = bios w"
  "queue (emit e w) = queue w"
  "trace (emit e w) = e # trace w"
  "pc (emit e w) = pc w"
  by (simp_all add: emit_def)

lemma upd_bio_simps [simp]:
  "logical_block_size (upd_bio b f w) = logical_block_size w"
  "BIO_MAX_VECS (upd_bio b f w) = BIO_MAX_VECS w"
  "kmalloc_ok (upd_bio b f w) = kmalloc_ok w"
  "iocb (upd_bio b f w) = iocb w"
  "iter (upd_bio b f w) = iter w"
  "dio (upd_bio b f w) = dio w"
  "nbios (upd_bio b f w) = nbios w"
  "bios (upd_bio b f w) = (bios w)(b := f (bios w b))"
  "queue (upd_bio b f w) = queue w"
  "trace (upd_bio b f w) = trace w"
  "pc (upd_bio b f w) = pc w"
  by (simp_all add: upd_bio_def)

lemma upd_dio_simps [simp]:
  "logical_block_size (upd_dio f w) = logical_block_size w"
  "BIO_MAX_VECS (upd_dio f w) = BIO_MAX_VECS w"
  "kmalloc_ok (upd_dio f w) = kmalloc_ok w"
  "iocb (upd_dio f w) = iocb w"
  "iter (upd_dio f w) = iter w"
  "dio (upd_dio f w) = f (dio w)"
  "nbios (upd_dio f w) = nbios w"
  "bios (upd_dio f w) = bios w"
  "queue (upd_dio f w) = queue w"
  "trace (upd_dio f w) = trace w"
  "pc (upd_dio f w) = pc w"
  by (simp_all add: upd_dio_def)

lemma bio_store_simps [simp]:
  "logical_block_size (bio_store n v w) = logical_block_size w"
  "BIO_MAX_VECS (bio_store n v w) = BIO_MAX_VECS w"
  "kmalloc_ok (bio_store n v w) = kmalloc_ok w"
  "iocb (bio_store n v w) = iocb w"
  "iter (bio_store n v w) = iter w"
  "dio (bio_store n v w) = dio w"
  "nbios (bio_store n v w) = nbios w + 1"
  "bios (bio_store n v w) = (bios w)(nbios w := new_bio n v)"
  "queue (bio_store n v w) = queue w"
  "trace (bio_store n v w) = trace w"
  "pc (bio_store n v w) = pc w"
  by (simp_all add: bio_store_def)

lemma bio_put_simps [simp]:
  "logical_block_size (bio_put b w) = logical_block_size w"
  "BIO_MAX_VECS (bio_put b w) = BIO_MAX_VECS w"
  "kmalloc_ok (bio_put b w) = kmalloc_ok w"
  "iocb (bio_put b w) = iocb w"
  "iter (bio_put b w) = iter w"
  "dio (bio_put b w) = dio w"
  "nbios (bio_put b w) = nbios w"
  "bios (bio_put b w) = (bios w)(b := put (bios w b))"
  "queue (bio_put b w) = queue w"
  "trace (bio_put b w) =
     (if \<not> BIO_REFFED (bios w b) \<or> bi_cnt (bios w b) = 1 then EvFree b # trace w else trace w)"
  "pc (bio_put b w) = pc w"
  by (simp_all add: bio_put_def Let_def bio_free_def put_def)

lemma bio_check_pages_dirty_simps [simp]:
  "logical_block_size (bio_check_pages_dirty b w) = logical_block_size w"
  "BIO_MAX_VECS (bio_check_pages_dirty b w) = BIO_MAX_VECS w"
  "kmalloc_ok (bio_check_pages_dirty b w) = kmalloc_ok w"
  "iocb (bio_check_pages_dirty b w) = iocb w"
  "iter (bio_check_pages_dirty b w) = iter w"
  "dio (bio_check_pages_dirty b w) = dio w"
  "nbios (bio_check_pages_dirty b w) = nbios w"
  "bios (bio_check_pages_dirty b w) = (bios w)(b := put ((bios w b)\<lparr>bi_vcnt := 0\<rparr>))"
  "queue (bio_check_pages_dirty b w) = queue w"
  "trace (bio_check_pages_dirty b w) =
     (if \<not> BIO_REFFED (bios w b) \<or> bi_cnt (bios w b) = 1 then EvFree b # EvCheckPagesDirty b # trace w
      else EvCheckPagesDirty b # trace w)"
  "pc (bio_check_pages_dirty b w) = pc w"
  by (simp_all add: bio_check_pages_dirty_def put_def)

lemma submit_bio_simps [simp]:
  "logical_block_size (submit_bio b w) = logical_block_size w"
  "BIO_MAX_VECS (submit_bio b w) = BIO_MAX_VECS w"
  "kmalloc_ok (submit_bio b w) = kmalloc_ok w"
  "iocb (submit_bio b w) = iocb w"
  "iter (submit_bio b w) = iter w"
  "dio (submit_bio b w) = dio w"
  "nbios (submit_bio b w) = nbios w"
  "bios (submit_bio b w) = bios w"
  "queue (submit_bio b w) = queue w @ [b]"
  "trace (submit_bio b w) = EvSubmit b (bi_size (bios w b)) # trace w"
  "pc (submit_bio b w) = pc w"
  by (simp_all add: submit_bio_def)

lemmas prim_defs = bio_alloc_kiocb_def bio_alloc_def bio_init_def bio_get_def bio_free_def
  bio_clear_flag_REFFED_def bio_release_pages_def bio_set_pages_dirty_def
  bio_set_polled_def blk_start_plug_def blk_finish_plug_def blk_wake_io_task_def
  ki_complete_def task_io_account_write_def atomic_inc_def

lemma put_simps [simp]:
  "bi_status (put x) = bi_status x"
  "bi_size (put x) = bi_size x"
  "bi_sector (put x) = bi_sector x"
  "bi_max_vecs (put x) = bi_max_vecs x"
  "bi_vcnt (put x) = bi_vcnt x"
  "bi_io_vec (put x) = bi_io_vec x"
  "bi_private (put x) = bi_private x"
  "bi_end_io (put x) = bi_end_io x"
  "BIO_REFFED (put x) = BIO_REFFED x"
  "bi_polled (put x) = bi_polled x"
  by (simp_all add: put_def)

lemma end_io_status_simps [simp]:
  "logical_block_size (end_io_status b w) = logical_block_size w"
  "BIO_MAX_VECS (end_io_status b w) = BIO_MAX_VECS w"
  "kmalloc_ok (end_io_status b w) = kmalloc_ok w"
  "iocb (end_io_status b w) = iocb w"
  "iter (end_io_status b w) = iter w"
  "dio (end_io_status b w) = dio w"
  "nbios (end_io_status b w) = nbios w"
  "bios (end_io_status b w) =
     (if bi_status (bios w b) \<noteq> BLK_STS_OK \<and> bi_status (bios w 0) = BLK_STS_OK
      then (bios w)(0 := (bios w 0)\<lparr>bi_status := bi_status (bios w b)\<rparr>) else bios w)"
  "queue (end_io_status b w) = queue w"
  "trace (end_io_status b w) = trace w"
  "pc (end_io_status b w) = pc w"
  by (simp_all add: end_io_status_def)

lemma end_io_last_fst [simp]:
  "fst (end_io_last w) = (\<not> multi_bio (dio w) \<or> dio_ref (dio w) = 1)"
  by (simp add: end_io_last_def atomic_dec_and_test_def)

lemma end_io_last_simps [simp]:
  "logical_block_size (snd (end_io_last w)) = logical_block_size w"
  "BIO_MAX_VECS (snd (end_io_last w)) = BIO_MAX_VECS w"
  "kmalloc_ok (snd (end_io_last w)) = kmalloc_ok w"
  "iocb (snd (end_io_last w)) = iocb w"
  "iter (snd (end_io_last w)) = iter w"
  "dio (snd (end_io_last w)) =
     (if multi_bio (dio w) then (dio w)\<lparr>dio_ref := dio_ref (dio w) - 1\<rparr> else dio w)"
  "nbios (snd (end_io_last w)) = nbios w"
  "bios (snd (end_io_last w)) = bios w"
  "queue (snd (end_io_last w)) = queue w"
  "trace (snd (end_io_last w)) = trace w"
  "pc (snd (end_io_last w)) = pc w"
  by (simp_all add: end_io_last_def atomic_dec_and_test_def)

lemma end_io_finalize_simps [simp]:
  "logical_block_size (end_io_finalize w) = logical_block_size w"
  "BIO_MAX_VECS (end_io_finalize w) = BIO_MAX_VECS w"
  "kmalloc_ok (end_io_finalize w) = kmalloc_ok w"
  "iocb (end_io_finalize w) =
     (if \<not> is_sync (dio w) \<and> bi_status (bios w 0) = BLK_STS_OK
      then (iocb w)\<lparr>ki_pos := ki_pos (iocb w) + dio_size (dio w)\<rparr> else iocb w)"
  "iter (end_io_finalize w) = iter w"
  "dio (end_io_finalize w) =
     (if is_sync (dio w) then (dio w)\<lparr>dio_ptr := NULL\<rparr> else dio w)"
  "nbios (end_io_finalize w) = nbios w"
  "bios (end_io_finalize w) =
     (if \<not> is_sync (dio w) \<and> multi_bio (dio w) then (bios w)(0 := put (bios w 0)) else bios w)"
  "queue (end_io_finalize w) = queue w"
  "trace (end_io_finalize w) =
     (if is_sync (dio w) then EvWake # trace w
      else (if multi_bio (dio w) \<and> (\<not> BIO_REFFED (bios w 0) \<or> bi_cnt (bios w 0) = 1)
            then [EvFree 0] else []) @
           EvKiComplete (if bi_status (bios w 0) = BLK_STS_OK then int (dio_size (dio w))
                         else blk_status_to_errno (bi_status (bios w 0))) # trace w)"
  "pc (end_io_finalize w) = pc w"
  by (simp_all add: end_io_finalize_def prim_defs Let_def)

lemma end_io_release_simps [simp]:
  "logical_block_size (end_io_release sd b w) = logical_block_size w"
  "BIO_MAX_VECS (end_io_release sd b w) = BIO_MAX_VECS w"
  "kmalloc_ok (end_io_release sd b w) = kmalloc_ok w"
  "iocb (end_io_release sd b w) = iocb w"
  "iter (end_io_release sd b w) = iter w"
  "dio (end_io_release sd b w) = dio w"
  "nbios (end_io_release sd b w) = nbios w"
  "bios (end_io_release sd b w) = (bios w)(b := put ((bios w b)\<lparr>bi_vcnt := 0\<rparr>))"
  "queue (end_io_release sd b w) = queue w"
  "trace (end_io_release sd b w) =
     (if \<not> BIO_REFFED (bios w b) \<or> bi_cnt (bios w b) = 1 then [EvFree b] else []) @
     (if sd then EvCheckPagesDirty b else EvReleasePages b False) # trace w"
  "pc (end_io_release sd b w) = pc w"
  by (simp_all add: end_io_release_def prim_defs)

lemma loop_break_simps [simp]:
  "logical_block_size (loop_break r w) = logical_block_size w"
  "BIO_MAX_VECS (loop_break r w) = BIO_MAX_VECS w"
  "kmalloc_ok (loop_break r w) = kmalloc_ok w"
  "iocb (loop_break r w) = iocb w"
  "iter (loop_break r w) = iter w"
  "dio (loop_break r w) = dio w"
  "nbios (loop_break r w) = nbios w"
  "bios (loop_break r w) = bios w"
  "queue (loop_break r w) = queue w"
  "trace (loop_break r w) =
     (if \<not> IOCB_HIPRI (iocb w) then EvFinishPlug # trace w else trace w)"
  "pc (loop_break r w) =
     (if \<not> ki_sync (iocb w) then PC_return (- EIOCBQUEUED) else PC_wait r)"
  by (simp_all add: loop_break_def prim_defs Let_def)

lemma loop_prepare_simps [simp]:
  "logical_block_size (loop_prepare b p w) = logical_block_size w"
  "BIO_MAX_VECS (loop_prepare b p w) = BIO_MAX_VECS w"
  "kmalloc_ok (loop_prepare b p w) = kmalloc_ok w"
  "iocb (loop_prepare b p w) = iocb w"
  "iter (loop_prepare b p w) = iter w"
  "dio (loop_prepare b p w) = dio w"
  "nbios (loop_prepare b p w) = nbios w"
  "bios (loop_prepare b p w) =
     (bios w)(b := (bios w b)\<lparr>bi_sector := p div 2 ^ 9, bi_private := DIO,
                                    bi_end_io := BLKDEV_BIO_END_IO\<rparr>)"
  "queue (loop_prepare b p w) = queue w"
  "trace (loop_prepare b p w) = trace w"
  "pc (loop_prepare b p w) = pc w"
  by (simp_all add: loop_prepare_def)

lemma get_pages_fst [simp]:
  "fst (bio_iov_iter_get_pages b w) = (if pages_for b w = [] then - EFAULT else 0)"
  by (simp add: bio_iov_iter_get_pages_def Let_def)

lemma get_pages_simps [simp]:
  "logical_block_size (snd (bio_iov_iter_get_pages b w)) = logical_block_size w"
  "BIO_MAX_VECS (snd (bio_iov_iter_get_pages b w)) = BIO_MAX_VECS w"
  "kmalloc_ok (snd (bio_iov_iter_get_pages b w)) = kmalloc_ok w"
  "iocb (snd (bio_iov_iter_get_pages b w)) = iocb w"
  "iter (snd (bio_iov_iter_get_pages b w)) =
     (iter w)\<lparr>iov_pages := drop (length (pages_for b w)) (iov_pages (iter w))\<rparr>"
  "dio (snd (bio_iov_iter_get_pages b w)) = dio w"
  "nbios (snd (bio_iov_iter_get_pages b w)) = nbios w"
  "bios (snd (bio_iov_iter_get_pages b w)) =
     (bios w)(b := (bios w b)\<lparr>bi_vcnt := bi_vcnt (bios w b) + length (pages_for b w),
               bi_size := bi_size (bios w b) + sum_list (map fst (pages_for b w))\<rparr>)"
  "queue (snd (bio_iov_iter_get_pages b w)) = queue w"
  "trace (snd (bio_iov_iter_get_pages b w)) = trace w"
  "pc (snd (bio_iov_iter_get_pages b w)) = pc w"
  by (simp_all add: bio_iov_iter_get_pages_def Let_def)

lemma loop_abort_simps [simp]:
  "logical_block_size (loop_abort b w) = logical_block_size w"
  "BIO_MAX_VECS (loop_abort b w) = BIO_MAX_VECS w"
  "kmalloc_ok (loop_abort b w) = kmalloc_ok w"
  "iocb (loop_abort b w) = iocb w"
  "iter (loop_abort b w) = iter w"
  "dio (loop_abort b w) = dio w"
  "nbios (loop_abort b w) = nbios w"
  "bios (loop_abort b w) =
     (bios w)(b := (bios w b)\<lparr>bi_vcnt := 0, BIO_REFFED := False,
                                    bi_freed := bi_freed (bios w b) + 1\<rparr>)"
  "queue (loop_abort b w) = queue w"
  "trace (loop_abort b w) = EvFinishPlug # EvFree b # EvReleasePages b False # trace w"
  "pc (loop_abort b w) = PC_return (- EAGAIN)"
  by (simp_all add: loop_abort_def prim_defs Let_def put_def)

lemma loop_account_simps [simp]:
  "logical_block_size (loop_account b w) = logical_block_size w"
  "BIO_MAX_VECS (loop_account b w) = BIO_MAX_VECS w"
  "kmalloc_ok (loop_account b w) = kmalloc_ok w"
  "iocb (loop_account b w) = iocb w"
  "iter (loop_account b w) = iter w"
  "dio (loop_account b w) =
     (dio w)\<lparr>dio_size := dio_size (dio w) + bi_size (bios w b)\<rparr>"
  "nbios (loop_account b w) = nbios w"
  "bios (loop_account b w) = bios w"
  "queue (loop_account b w) = queue w"
  "trace (loop_account b w) =
     (if data_source (iter w) = READ
      then (if should_dirty (dio w) then EvSetPagesDirty b # trace w else trace w)
      else EvAccountWrite (bi_size (bios w b)) # trace w)"
  "pc (loop_account b w) = pc w"
  by (simp_all add: loop_account_def prim_defs Let_def)

lemma loop_last_simps [simp]:
  "logical_block_size (loop_last b r w) = logical_block_size w"
  "BIO_MAX_VECS (loop_last b r w) = BIO_MAX_VECS w"
  "kmalloc_ok (loop_last b r w) = kmalloc_ok w"
  "iocb (loop_last b r w) =
     (if IOCB_HIPRI (iocb w) then (iocb w)\<lparr>ki_cookie := Some b\<rparr> else iocb w)"
  "iter (loop_last b r w) = iter w"
  "dio (loop_last b r w) = dio w"
  "nbios (loop_last b r w) = nbios w"
  "bios (loop_last b r w) =
     (if IOCB_HIPRI (iocb w) then (bios w)(b := (bios w b)\<lparr>bi_polled := True\<rparr>) else bios w)"
  "queue (loop_last b r w) = queue w @ [b]"
  "trace (loop_last b r w) =
     (if \<not> IOCB_HIPRI (iocb w) then [EvFinishPlug] else []) @
     EvSubmit b (bi_size (bios w b)) # trace w"
  "pc (loop_last b r w) =
     (if \<not> ki_sync (iocb w) then PC_return (- EIOCBQUEUED) else PC_wait r)"
  by (simp_all add: loop_last_def prim_defs Let_def)

lemma loop_more_simps [simp]:
  "logical_block_size (loop_more b p n w) = logical_block_size w"
  "BIO_MAX_VECS (loop_more b p n w) = BIO_MAX_VECS w"
  "kmalloc_ok (loop_more b p n w) = kmalloc_ok w"
  "iocb (loop_more b p n w) = iocb w"
  "iter (loop_more b p n w) = iter w"
  "dio (loop_more b p n w) =
     (if \<not> multi_bio (dio w) then (dio w)\<lparr>multi_bio := True, dio_ref := 2\<rparr>
      else (dio w)\<lparr>dio_ref := dio_ref (dio w) + 1\<rparr>)"
  "nbios (loop_more b p n w) = nbios w + 1"
  "bios (loop_more b p n w) =
     ((if \<not> multi_bio (dio w) \<and> \<not> ki_sync (iocb w)
       then (bios w)(b := (bios w b)\<lparr>BIO_REFFED := True, bi_cnt := bi_cnt (bios w b) + 1\<rparr>)
       else bios w))(nbios w := new_bio n BIOSET_VECS)"
  "queue (loop_more b p n w) = queue w @ [b]"
  "trace (loop_more b p n w) = EvSubmit b (bi_size (bios w b)) # trace w"
  "pc (loop_more b p n w) = PC_loop (nbios w) p"
  by (simp_all add: loop_more_def prim_defs Let_def)

lemma blk_status_to_errno_zero: "blk_status_to_errno s = 0 \<longleftrightarrow> s = BLK_STS_OK"
  by (cases s) simp_all

lemma blk_status_to_errno_neg: "s \<noteq> BLK_STS_OK \<Longrightarrow> blk_status_to_errno s < 0"
  by (cases s) simp_all

subsection \<open>The alignment test\<close>

lemma wrap_pred: "1 \<le> a \<Longrightarrow> a \<le> M \<Longrightarrow> (a + M - 1) mod M = a - (1::nat)"
proof -
  assume a: "1 \<le> a" "a \<le> M"
  then have "a + M - 1 = (a - 1) + M" by linarith
  then have "(a + M - 1) mod M = ((a - 1) + M) mod M" by (rule arg_cong)
  also have "\<dots> = (a - 1) mod M" by (fact mod_add_self2)
  also have "\<dots> = a - 1" using a by (intro mod_less) linarith
  finally show ?thesis .
qed

lemma mask_u32: "n < 32 \<Longrightarrow> ((2::nat) ^ n + 2 ^ 32 - 1) mod 2 ^ 32 = 2 ^ n - 1"
proof -
  assume n: "n < 32"
  have "(2::nat) ^ n \<le> 2 ^ 32"
    using n by (intro power_increasing) auto
  moreover have "(1::nat) \<le> 2 ^ n" by simp
  ultimately show ?thesis by (rule wrap_pred [rotated])
qed

lemma and_low_bits: "(x::nat) AND (2 ^ n - 1) = 0 \<longleftrightarrow> 2 ^ n dvd x"
proof -
  have "x AND (2 ^ n - 1) = take_bit n x"
    by (simp add: take_bit_eq_mask mask_eq_exp_minus_1)
  then show ?thesis by (simp add: take_bit_eq_0_iff)
qed

lemma or_low_bits: "((x::nat) OR y) AND m = 0 \<longleftrightarrow> x AND m = 0 \<and> y AND m = 0"
proof -
  have "(x OR y) AND m = (x AND m) OR (y AND m)"
    by (rule bit_eqI) (auto simp add: bit_and_iff bit_or_iff)
  then show ?thesis by (simp add: or_eq_0_iff)
qed

lemma dvd_or: "2 ^ n dvd ((x::nat) OR y) \<longleftrightarrow> 2 ^ n dvd x \<and> 2 ^ n dvd y"
  using or_low_bits [of x y "2 ^ n - 1"] by (simp only: and_low_bits)

lemma dvd_foldr_or: "2 ^ n dvd foldr (OR) xs (0::nat) \<longleftrightarrow> (\<forall>x\<in>set xs. 2 ^ n dvd x)"
  by (induction xs) (simp_all add: dvd_or)

lemma misaligned_iff:
  assumes lbs: "logical_block_size w = 2 ^ n" and n: "n < 32"
  shows "misaligned w \<longleftrightarrow>
    \<not> logical_block_size w dvd ki_pos (iocb w) \<or>
    (\<exists>x\<in>set (iov_bounds (iter w)). \<not> logical_block_size w dvd x)"
proof -
  have m: "(logical_block_size w + 2 ^ 32 - 1) mod 2 ^ 32 = 2 ^ n - 1"
    unfolding lbs by (rule mask_u32 [OF n])
  have "misaligned w \<longleftrightarrow>
      \<not> ((ki_pos (iocb w) OR foldr (OR) (iov_bounds (iter w)) 0) AND (2 ^ n - 1) = 0)"
    unfolding misaligned_def m iov_iter_alignment_def ..
  also have "\<dots> \<longleftrightarrow> \<not> 2 ^ n dvd (ki_pos (iocb w) OR foldr (OR) (iov_bounds (iter w)) 0)"
    by (simp only: and_low_bits)
  also have "\<dots> \<longleftrightarrow> \<not> (2 ^ n dvd ki_pos (iocb w) \<and> (\<forall>x\<in>set (iov_bounds (iter w)). 2 ^ n dvd x))"
    by (simp only: dvd_or dvd_foldr_or)
  finally show ?thesis unfolding lbs by blast
qed

text \<open>
  C10: a request whose iterator has no bytes left returns 0 at once: nothing is
  allocated, submitted or traced, and the alignment test is never reached, so the
  request succeeds whatever its offset.
\<close>

theorem zero_length_request_succeeds:
  "iov_iter_count (iter w) = 0 \<Longrightarrow>
     blkdev_direct_IO w = w\<lparr>pc := PC_return 0\<rparr> \<and>
     run [Run] (fresh w) = (fresh w)\<lparr>pc := PC_return 0\<rparr>"
  by (simp add: blkdev_direct_IO_def thread_step_def fresh_def)

theorem zero_length_request_succeeds_witness:
  "misaligned (example_world 256 (example_iocb 1 True False) (example_iter READ [])) \<and>
   iov_iter_count (iter (example_world 256 (example_iocb 1 True False) (example_iter READ []))) = 0 \<and>
   pc (blkdev_direct_IO (example_world 256 (example_iocb 1 True False) (example_iter READ [])))
     = PC_return 0 \<and>
   nbios (blkdev_direct_IO (example_world 256 (example_iocb 1 True False) (example_iter READ [])))
     = 0"
  using zero_length_request_succeeds
    [of "example_world 256 (example_iocb 1 True False) (example_iter READ [])"]
  by (simp add: example_defs misaligned_def iov_iter_count_def iov_iter_alignment_def)

text \<open>
  C6: with a logical block size that is a power of two, a request whose offset or one of
  whose buffer addresses or lengths is not a multiple of the block size is rejected with
  \<open>- EINVAL\<close> by the general path, by the simple path, and (when it is not empty) by
  the entry point. The state is the one before the call: no bio exists, nothing is
  submitted, nothing is traced.
\<close>

theorem misaligned_request_rejected:
  assumes "logical_block_size w = 2 ^ n" and "n < 32"
    and "\<not> logical_block_size w dvd ki_pos (iocb w) \<or>
         (\<exists>x\<in>set (iov_bounds (iter w)). \<not> logical_block_size w dvd x)"
  shows "uu_blkdev_direct_IO nr_pages w = w\<lparr>pc := PC_return (- EINVAL)\<rparr> \<and>
         uu_blkdev_direct_IO_simple nr_pages w = w\<lparr>pc := PC_return (- EINVAL)\<rparr> \<and>
         (iov_iter_count (iter w) \<noteq> 0 \<longrightarrow>
            blkdev_direct_IO w = w\<lparr>pc := PC_return (- EINVAL)\<rparr>)"
proof -
  have "misaligned w"
    using assms by (simp add: misaligned_iff)
  then show ?thesis
    by (simp add: uu_blkdev_direct_IO_def uu_blkdev_direct_IO_simple_def blkdev_direct_IO_def
        Let_def)
qed

theorem misaligned_request_rejected_witness:
  "iov_iter_count (iter (example_world 256 (example_iocb 1 False False)
      (example_iter READ [(1536, True)]))) \<noteq> 0 \<and>
   pc (blkdev_direct_IO (example_world 256 (example_iocb 1 False False)
      (example_iter READ [(1536, True)]))) = PC_return (- EINVAL) \<and>
   nbios (blkdev_direct_IO (example_world 256 (example_iocb 1 False False)
      (example_iter READ [(1536, True)]))) = 0 \<and>
   trace (blkdev_direct_IO (example_world 256 (example_iocb 1 False False)
      (example_iter READ [(1536, True)]))) = [] \<and>
   pc (uu_blkdev_direct_IO_simple 1 (example_world 256 (example_iocb 1 True False)
      (example_iter READ [(1536, True)]))) = PC_return (- EINVAL)"
  using misaligned_request_rejected
    [of "example_world 256 (example_iocb 1 False False) (example_iter READ [(1536, True)])" 9 1]
    misaligned_request_rejected
    [of "example_world 256 (example_iocb 1 True False) (example_iter READ [(1536, True)])" 9 1]
  by (simp add: example_defs iov_iter_count_def)

subsection \<open>The submission loop, branch by branch\<close>

lemma pages_for_prepare [simp]: "pages_for b (loop_prepare b' pos w) = pages_for b w"
  by (simp add: pages_for_def)

lemma acquired_simps [simp]:
  "logical_block_size (acquired b p w) = logical_block_size w"
  "BIO_MAX_VECS (acquired b p w) = BIO_MAX_VECS w"
  "kmalloc_ok (acquired b p w) = kmalloc_ok w"
  "iocb (acquired b p w) = iocb w"
  "iter (acquired b p w) = (iter w)\<lparr>iov_pages := rest_pages b w\<rparr>"
  "dio (acquired b p w) = dio w"
  "nbios (acquired b p w) = nbios w"
  "bios (acquired b p w) =
     (bios w)(b := (bios w b)\<lparr>bi_sector := p div 2 ^ 9, bi_private := DIO,
        bi_end_io := BLKDEV_BIO_END_IO,
        bi_vcnt := bi_vcnt (bios w b) + length (pages_for b w),
        bi_size := bi_size (bios w b) + sum_list (map fst (pages_for b w))\<rparr>)"
  "queue (acquired b p w) = queue w"
  "trace (acquired b p w) = trace w"
  "pc (acquired b p w) = pc w"
  by (simp_all add: acquired_def rest_pages_def)

lemma count_rest [simp]:
  "iov_iter_count ((iter w)\<lparr>iov_pages := rest_pages b w\<rparr>) = bytes_left b w"
  by (simp add: iov_iter_count_def bytes_left_def)

lemma loop_fail_eq:
  "pages_for b w = [] \<Longrightarrow>
     uu_blkdev_direct_IO_loop b pos w = loop_fail b (- EFAULT) (loop_prepare b pos w)"
  by (simp add: uu_blkdev_direct_IO_loop_def Let_def case_prod_beta bio_iov_iter_get_pages_def)

lemma loop_abort_eq:
  "pages_for b w \<noteq> [] \<Longrightarrow> IOCB_NOWAIT (iocb w) \<Longrightarrow> bytes_left b w \<noteq> 0 \<Longrightarrow>
     uu_blkdev_direct_IO_loop b pos w = loop_abort b (acquired b pos w)"
  by (simp add: uu_blkdev_direct_IO_loop_def Let_def case_prod_beta acquired_def [symmetric])

lemma min_zero_iff: "min (a::nat) b = 0 \<longleftrightarrow> a = 0 \<or> b = 0"
  by (auto simp add: min_def)

lemma loop_last_eq:
  "pages_for b w \<noteq> [] \<Longrightarrow> \<not> (IOCB_NOWAIT (iocb w) \<and> bytes_left b w \<noteq> 0) \<Longrightarrow>
   rest_pages b w = [] \<or> BIO_MAX_VECS w = 0 \<Longrightarrow>
     uu_blkdev_direct_IO_loop b pos w = loop_last b 0 (loop_account b (acquired b pos w))"
  by (auto simp add: uu_blkdev_direct_IO_loop_def Let_def case_prod_beta acquired_def [symmetric]
      bio_iov_vecs_to_alloc_def min_zero_iff)

lemma loop_more_eq:
  "pages_for b w \<noteq> [] \<Longrightarrow> \<not> (IOCB_NOWAIT (iocb w) \<and> bytes_left b w \<noteq> 0) \<Longrightarrow>
   rest_pages b w \<noteq> [] \<Longrightarrow> BIO_MAX_VECS w \<noteq> 0 \<Longrightarrow>
     uu_blkdev_direct_IO_loop b pos w =
       loop_more b (pos + bi_size (bios (acquired b pos w) b))
         (min (length (rest_pages b w)) (BIO_MAX_VECS w)) (loop_account b (acquired b pos w))"
  by (auto simp add: uu_blkdev_direct_IO_loop_def Let_def case_prod_beta acquired_def [symmetric]
      bio_iov_vecs_to_alloc_def min_zero_iff)

lemma prologue_simps [simp]:
  assumes "\<not> misaligned w"
  shows
  "logical_block_size (uu_blkdev_direct_IO n w) = logical_block_size w"
  "BIO_MAX_VECS (uu_blkdev_direct_IO n w) = BIO_MAX_VECS w"
  "kmalloc_ok (uu_blkdev_direct_IO n w) = kmalloc_ok w"
  "iocb (uu_blkdev_direct_IO n w) = iocb w"
  "iter (uu_blkdev_direct_IO n w) = iter w"
  "dio (uu_blkdev_direct_IO n w) =
     \<lparr>dio_ptr = (if ki_sync (iocb w) then CURRENT else IOCB), dio_size = 0,
      dio_ref = dio_ref (dio w), multi_bio = False,
      should_dirty = (data_source (iter w) = READ \<and> iter_iovec (iter w)),
      is_sync = ki_sync (iocb w)\<rparr>"
  "nbios (uu_blkdev_direct_IO n w) = nbios w + 1"
  "bios (uu_blkdev_direct_IO n w) =
     (bios w)(nbios w := (if ki_sync (iocb w)
        then (new_bio n BIOSET_VECS)\<lparr>BIO_REFFED := True, bi_cnt := 2\<rparr>
        else new_bio n BIOSET_VECS))"
  "queue (uu_blkdev_direct_IO n w) = queue w"
  "trace (uu_blkdev_direct_IO n w) =
     (if \<not> IOCB_HIPRI (iocb w) then EvStartPlug # trace w else trace w)"
  "pc (uu_blkdev_direct_IO n w) = PC_loop (nbios w) (ki_pos (iocb w))"
  using assms
  by (simp_all add: uu_blkdev_direct_IO_def prim_defs Let_def new_bio_def)

lemma fresh_simps [simp]:
  "logical_block_size (fresh w) = logical_block_size w"
  "BIO_MAX_VECS (fresh w) = BIO_MAX_VECS w"
  "kmalloc_ok (fresh w) = kmalloc_ok w"
  "iocb (fresh w) = iocb w"
  "iter (fresh w) = iter w"
  "dio (fresh w) = dio w"
  "nbios (fresh w) = 0"
  "bios (fresh w) = bios w"
  "queue (fresh w) = []"
  "trace (fresh w) = []"
  "pc (fresh w) = PC_entry"
  "misaligned (fresh w) = misaligned w"
  by (simp_all add: fresh_def misaligned_def)

lemma quiet_step: "queue w = [] \<Longrightarrow> pc w = PC_return r \<Longrightarrow> step a w = w"
  by (cases a) (simp_all add: thread_step_def device_complete_def)

lemma quiet_run: "queue w = [] \<Longrightarrow> pc w = PC_return r \<Longrightarrow> run as w = w"
  by (induction as) (simp_all add: quiet_step)

text \<open>
  C2: a well-aligned \<^verbatim>\<open>IOCB_NOWAIT\<close> request whose first bio gets its pages and
  leaves bytes in the iterator is aborted in the first pass through the loop: the bio's
  pages are released without being marked dirty, the bio is freed, nothing was handed to
  the device, the byte total is 0, the iocb is untouched, the call returns
  \<open>- EAGAIN\<close>, and no later step changes the state.
\<close>

theorem nowait_all_or_nothing:
  assumes "\<not> misaligned w" and "IOCB_NOWAIT (iocb w)" and "needs_another_bio nr_pages (iter w)"
  shows "pc (run [Run] (uu_blkdev_direct_IO nr_pages (fresh w))) = PC_return (- EAGAIN) \<and>
         trace (run [Run] (uu_blkdev_direct_IO nr_pages (fresh w))) =
           [EvFinishPlug, EvFree 0, EvReleasePages 0 False] @
           (if IOCB_HIPRI (iocb w) then [] else [EvStartPlug]) \<and>
         queue (run [Run] (uu_blkdev_direct_IO nr_pages (fresh w))) = [] \<and>
         nbios (run [Run] (uu_blkdev_direct_IO nr_pages (fresh w))) = 1 \<and>
         bi_freed (bios (run [Run] (uu_blkdev_direct_IO nr_pages (fresh w))) 0) = 1 \<and>
         bi_vcnt (bios (run [Run] (uu_blkdev_direct_IO nr_pages (fresh w))) 0) = 0 \<and>
         dio_size (dio (run [Run] (uu_blkdev_direct_IO nr_pages (fresh w)))) = 0 \<and>
         iocb (run [Run] (uu_blkdev_direct_IO nr_pages (fresh w))) = iocb w \<and>
         (\<forall>as. run as (run [Run] (uu_blkdev_direct_IO nr_pages (fresh w))) =
                run [Run] (uu_blkdev_direct_IO nr_pages (fresh w)))"
proof -
  let ?w0 = "uu_blkdev_direct_IO nr_pages (fresh w)"
  have al: "\<not> misaligned (fresh w)" using assms(1) by simp
  have pf: "pages_for 0 ?w0 = takeWhile snd (take nr_pages (iov_pages (iter w)))"
    using al by (simp add: pages_for_def new_bio_def)
  have got: "pages_for 0 ?w0 \<noteq> []"
    and rest: "bytes_left 0 ?w0 \<noteq> 0"
    using assms(3) al by (simp_all add: needs_another_bio_def Let_def pf rest_pages_def bytes_left_def)
  have nw: "IOCB_NOWAIT (iocb ?w0)" using assms(2) al by simp
  have eq: "run [Run] ?w0 = loop_abort 0 (acquired 0 (ki_pos (iocb w)) ?w0)"
    using al by (simp add: thread_step_def loop_abort_eq [OF got nw rest])
  have fin: "\<forall>as. run as (run [Run] ?w0) = run [Run] ?w0"
    unfolding eq using al by (intro allI quiet_run [where r = "- EAGAIN"]) simp_all
  show ?thesis
    using al fin unfolding eq by (simp add: new_bio_def)
qed

lemma simple_out_simps [simp]:
  "logical_block_size (simple_out b r w) = logical_block_size w"
  "BIO_MAX_VECS (simple_out b r w) = BIO_MAX_VECS w"
  "kmalloc_ok (simple_out b r w) = kmalloc_ok w"
  "iocb (simple_out b r w) = iocb w"
  "iter (simple_out b r w) = iter w"
  "dio (simple_out b r w) = dio w"
  "nbios (simple_out b r w) = nbios w"
  "bios (simple_out b r w) = bios w"
  "queue (simple_out b r w) = queue w"
  "trace (simple_out b r w) =
     (if bi_io_vec (bios w b) \<noteq> INLINE_VECS then EvKfree # trace w else trace w)"
  "pc (simple_out b r w) = PC_return r"
  by (simp_all add: simple_out_def Let_def)

lemma simple_path_keeps_dio:
  "dio (uu_blkdev_direct_IO_simple n w) = dio w"
  "dio (uu_blkdev_direct_IO_simple_wait b r sd w) = dio w"
  "dio (blkdev_bio_end_io_simple b w) = dio w"
  by (simp_all add: uu_blkdev_direct_IO_simple_def uu_blkdev_direct_IO_simple_wait_def
      blkdev_bio_end_io_simple_def Let_def case_prod_beta prim_defs)

lemma simple_path_storage:
  assumes "\<not> misaligned w" and "n \<le> DIO_INLINE_BIO_VECS \<or> kmalloc_ok w"
  shows "nbios (uu_blkdev_direct_IO_simple n w) = nbios w + 1"
    and "bi_io_vec (bios (uu_blkdev_direct_IO_simple n w) (nbios w)) =
           (if n \<le> DIO_INLINE_BIO_VECS then INLINE_VECS else KMALLOC_VECS)"
  using assms
  by (auto simp add: uu_blkdev_direct_IO_simple_def Let_def case_prod_beta prim_defs new_bio_def)

lemma simple_path_enomem:
  "\<not> misaligned w \<Longrightarrow> \<not> n \<le> DIO_INLINE_BIO_VECS \<Longrightarrow> \<not> kmalloc_ok w \<Longrightarrow>
     uu_blkdev_direct_IO_simple n w = w\<lparr>pc := PC_return (- ENOMEM)\<rparr>"
  by (simp add: uu_blkdev_direct_IO_simple_def)

text \<open>
  C9, as amended: a request that is not empty takes the simple path exactly when it is
  synchronous and its page count is at most \<open>BIO_MAX_VECS\<close>, and the general path
  otherwise. The simple path never touches the dio; it builds one bio whose page vector
  is the inline one when the page count is at most \<open>DIO_INLINE_BIO_VECS\<close> and comes
  from \<^verbatim>\<open>kmalloc_array\<close> otherwise (\<open>- ENOMEM\<close> when that fails).
\<close>

theorem entry_point_dispatch:
  assumes "iov_iter_count (iter w) \<noteq> 0"
  shows
    "(ki_sync (iocb w) \<and> bio_iov_vecs_to_alloc (iter w) (BIO_MAX_VECS w + 1) \<le> BIO_MAX_VECS w \<longrightarrow>
        blkdev_direct_IO w =
          uu_blkdev_direct_IO_simple (bio_iov_vecs_to_alloc (iter w) (BIO_MAX_VECS w + 1)) w) \<and>
     (\<not> (ki_sync (iocb w) \<and> bio_iov_vecs_to_alloc (iter w) (BIO_MAX_VECS w + 1) \<le> BIO_MAX_VECS w) \<longrightarrow>
        blkdev_direct_IO w =
          uu_blkdev_direct_IO
            (bio_max_segs w (bio_iov_vecs_to_alloc (iter w) (BIO_MAX_VECS w + 1))) w) \<and>
     dio (uu_blkdev_direct_IO_simple n w) = dio w \<and>
     (\<not> misaligned w \<and> (n \<le> DIO_INLINE_BIO_VECS \<or> kmalloc_ok w) \<longrightarrow>
        nbios (uu_blkdev_direct_IO_simple n w) = nbios w + 1 \<and>
        bi_io_vec (bios (uu_blkdev_direct_IO_simple n w) (nbios w)) =
          (if n \<le> DIO_INLINE_BIO_VECS then INLINE_VECS else KMALLOC_VECS)) \<and>
     (\<not> misaligned w \<and> \<not> n \<le> DIO_INLINE_BIO_VECS \<and> \<not> kmalloc_ok w \<longrightarrow>
        uu_blkdev_direct_IO_simple n w = w\<lparr>pc := PC_return (- ENOMEM)\<rparr>)"
  using assms
  by (simp add: blkdev_direct_IO_def Let_def simple_path_keeps_dio simple_path_storage
      simple_path_enomem)

lemmas sim_defs = uu_blkdev_direct_IO_simple_def uu_blkdev_direct_IO_def blkdev_direct_IO_def
  misaligned_def iov_iter_count_def iov_iter_alignment_def bio_iov_vecs_to_alloc_def
  bio_max_segs_def pages_for_def bio_iov_iter_get_pages_def DIO_INLINE_BIO_VECS_def
  new_bio_def Let_def prim_defs

text \<open>
  C9 as stated fails: with \<open>BIO_MAX_VECS = 256\<close>, a synchronous read of five pages
  does not fit the inline capacity of four, yet it is served by the simple path, with a
  page vector from \<^verbatim>\<open>kmalloc_array\<close>, and not by the general path.
\<close>

theorem inline_capacity_counterexample:
  "ki_sync (iocb (example_world 256 (example_iocb 0 True False) (example_iter READ five_pages))) \<and>
   bio_iov_vecs_to_alloc (iter (example_world 256 (example_iocb 0 True False)
      (example_iter READ five_pages))) 257 = 5 \<and>
   \<not> 5 \<le> DIO_INLINE_BIO_VECS \<and>
   pc (blkdev_direct_IO (example_world 256 (example_iocb 0 True False)
      (example_iter READ five_pages))) = PC_simple_wait 0 20480 True \<and>
   bi_io_vec (bios (blkdev_direct_IO (example_world 256 (example_iocb 0 True False)
      (example_iter READ five_pages))) 0) = KMALLOC_VECS \<and>
   bi_end_io (bios (blkdev_direct_IO (example_world 256 (example_iocb 0 True False)
      (example_iter READ five_pages))) 0) = BLKDEV_BIO_END_IO_SIMPLE \<and>
   dio (blkdev_direct_IO (example_world 256 (example_iocb 0 True False)
      (example_iter READ five_pages))) = junk_dio \<and>
   pc (uu_blkdev_direct_IO 5 (example_world 256 (example_iocb 0 True False)
      (example_iter READ five_pages))) = PC_loop 0 0"
  by (simp add: example_defs five_pages_def sim_defs)

theorem entry_point_dispatch_witness:
  "iov_iter_count (iter (example_world 256 (example_iocb 0 True False)
      (example_iter READ five_pages))) \<noteq> 0 \<and>
   blkdev_direct_IO (example_world 256 (example_iocb 0 True False) (example_iter READ five_pages)) =
     uu_blkdev_direct_IO_simple 5 (example_world 256 (example_iocb 0 True False)
       (example_iter READ five_pages)) \<and>
   bi_io_vec (bios (uu_blkdev_direct_IO_simple 5 (example_world 256 (example_iocb 0 True False)
       (example_iter READ five_pages))) 0) = KMALLOC_VECS \<and>
   blkdev_direct_IO (example_world 256 (example_iocb 0 False False) (example_iter READ five_pages)) =
     uu_blkdev_direct_IO 5 (example_world 256 (example_iocb 0 False False)
       (example_iter READ five_pages))"
proof -
  have five: "Suc (Suc (Suc (Suc (Suc 0)))) = 5" by simp
  show ?thesis
    using entry_point_dispatch
       [of "example_world 256 (example_iocb 0 True False) (example_iter READ five_pages)" 5]
      entry_point_dispatch
       [of "example_world 256 (example_iocb 0 False False) (example_iter READ five_pages)" 5]
    by (simp add: example_defs five_pages_def misaligned_def iov_iter_count_def
        iov_iter_alignment_def bio_iov_vecs_to_alloc_def bio_max_segs_def
        DIO_INLINE_BIO_VECS_def five)
qed

theorem nowait_all_or_nothing_witness:
  "\<not> misaligned (example_world 1 (example_iocb 0 False True)
      (example_iter READ [(1024, True), (512, True)])) \<and>
   needs_another_bio 1 (iter (example_world 1 (example_iocb 0 False True)
      (example_iter READ [(1024, True), (512, True)]))) \<and>
   pc (run [Run] (uu_blkdev_direct_IO 1 (fresh (example_world 1 (example_iocb 0 False True)
      (example_iter READ [(1024, True), (512, True)]))))) = PC_return (- EAGAIN) \<and>
   queue (run [Run] (uu_blkdev_direct_IO 1 (fresh (example_world 1 (example_iocb 0 False True)
      (example_iter READ [(1024, True), (512, True)]))))) = [] \<and>
   trace (run [Run] (uu_blkdev_direct_IO 1 (fresh (example_world 1 (example_iocb 0 False True)
      (example_iter READ [(1024, True), (512, True)]))))) =
     [EvFinishPlug, EvFree 0, EvReleasePages 0 False, EvStartPlug]"
  using nowait_all_or_nothing
     [of "example_world 1 (example_iocb 0 False True)
            (example_iter READ [(1024, True), (512, True)])" 1]
  by (simp add: example_defs misaligned_def iov_iter_alignment_def needs_another_bio_def)

subsection \<open>Completions\<close>

lemma end_io_frame [simp]:
  "logical_block_size (blkdev_bio_end_io b w) = logical_block_size w"
  "BIO_MAX_VECS (blkdev_bio_end_io b w) = BIO_MAX_VECS w"
  "kmalloc_ok (blkdev_bio_end_io b w) = kmalloc_ok w"
  "iter (blkdev_bio_end_io b w) = iter w"
  "nbios (blkdev_bio_end_io b w) = nbios w"
  "queue (blkdev_bio_end_io b w) = queue w"
  "pc (blkdev_bio_end_io b w) = pc w"
  by (simp_all add: blkdev_bio_end_io_def Let_def case_prod_beta)

lemma end_io_iocb [simp]:
  "ki_sync (iocb (blkdev_bio_end_io b w)) = ki_sync (iocb w)"
  "IOCB_NOWAIT (iocb (blkdev_bio_end_io b w)) = IOCB_NOWAIT (iocb w)"
  "IOCB_HIPRI (iocb (blkdev_bio_end_io b w)) = IOCB_HIPRI (iocb w)"
  by (simp_all add: blkdev_bio_end_io_def Let_def case_prod_beta)

lemma end_io_dio [simp]:
  "multi_bio (dio (blkdev_bio_end_io b w)) = multi_bio (dio w)"
  "is_sync (dio (blkdev_bio_end_io b w)) = is_sync (dio w)"
  "should_dirty (dio (blkdev_bio_end_io b w)) = should_dirty (dio w)"
  "dio_size (dio (blkdev_bio_end_io b w)) = dio_size (dio w)"
  "dio_ref (dio (blkdev_bio_end_io b w)) =
     (if multi_bio (dio w) then dio_ref (dio w) - 1 else dio_ref (dio w))"
  by (simp_all add: blkdev_bio_end_io_def Let_def case_prod_beta)

lemma end_io_nfin [simp]:
  "nfin (blkdev_bio_end_io b w) =
     nfin w + (if \<not> multi_bio (dio w) \<or> dio_ref (dio w) = 1 then 1 else 0)"
  by (simp add: blkdev_bio_end_io_def Let_def nfin_def case_prod_beta)

lemma end_io_outcomes [simp]:
  "outcomes (trace (blkdev_bio_end_io b w)) = outcomes (trace w)"
  "submitted (trace (blkdev_bio_end_io b w)) = submitted (trace w)"
  by (simp_all add: blkdev_bio_end_io_def Let_def case_prod_beta)

lemma end_io_bios [simp]:
  "bi_end_io (bios (blkdev_bio_end_io b w) x) = bi_end_io (bios w x)"
  "bi_size (bios (blkdev_bio_end_io b w) x) = bi_size (bios w x)"
  "bi_max_vecs (bios (blkdev_bio_end_io b w) x) = bi_max_vecs (bios w x)"
  by (simp_all add: blkdev_bio_end_io_def Let_def case_prod_beta)

lemma end_io_bi_status:
  "bi_status (bios (blkdev_bio_end_io b w) x) =
     (if x = 0 \<and> bi_status (bios w b) \<noteq> BLK_STS_OK \<and> bi_status (bios w 0) = BLK_STS_OK
      then bi_status (bios w b) else bi_status (bios w x))"
  by (simp add: blkdev_bio_end_io_def Let_def case_prod_beta)

lemma bio_endio_dio:
  "bi_end_io (bios w b) = BLKDEV_BIO_END_IO \<Longrightarrow>
     bio_endio b w = blkdev_bio_end_io b (emit (EvEndio b (bi_status (bios w b))) w)"
  by (simp add: bio_endio_def Let_def)

lemma nfin_simps [simp]:
  "nfin (emit e w) = nfin w + (if is_finalize e then 1 else 0)"
  "nfin (upd_bio b f w) = nfin w"
  "nfin (upd_dio g w) = nfin w"
  "nfin (w\<lparr>queue := q\<rparr>) = nfin w"
  "nfin (w\<lparr>pc := p\<rparr>) = nfin w"
  by (simp_all add: nfin_def)

lemma ended_simps [simp]:
  "ended (emit (EvEndio b s) w) = b # ended w"
  "ended (upd_bio b f w) = ended w"
  "ended (upd_dio g w) = ended w"
  "ended (w\<lparr>queue := q\<rparr>) = ended w"
  "ended (w\<lparr>pc := p\<rparr>) = ended w"
  "ended (blkdev_bio_end_io b w) = ended w"
  by (simp_all add: ended_def)

subsection \<open>The invariant of the general path\<close>

lemma length_removeAll_distinct:
  "distinct q \<Longrightarrow> x \<in> set q \<Longrightarrow> Suc (length (removeAll x q)) = length q"
  by (induction q) (auto simp add: removeAll_id)

lemma device_complete_dio:
  assumes "x \<in> set (queue w)" and "bi_end_io (bios w x) = BLKDEV_BIO_END_IO"
  shows "device_complete x s w =
           blkdev_bio_end_io x
             (emit (EvEndio x (if s \<noteq> BLK_STS_OK then s else bi_status (bios w x)))
                ((if s \<noteq> BLK_STS_OK then upd_bio x (\<lambda>b. b\<lparr>bi_status := s\<rparr>) w else w)
                   \<lparr>queue := removeAll x (queue w)\<rparr>))"
  using assms by (simp add: device_complete_def bio_endio_dio)

lemma device_complete_obs:
  assumes "x \<in> set (queue w)" and "bi_end_io (bios w x) = BLKDEV_BIO_END_IO"
  shows "queue (device_complete x s w) = removeAll x (queue w)"
    and "ended (device_complete x s w) = x # ended w"
    and "nfin (device_complete x s w) =
           nfin w + (if \<not> multi_bio (dio w) \<or> dio_ref (dio w) = 1 then 1 else 0)"
    and "nbios (device_complete x s w) = nbios w"
    and "pc (device_complete x s w) = pc w"
    and "iter (device_complete x s w) = iter w"
    and "multi_bio (dio (device_complete x s w)) = multi_bio (dio w)"
    and "is_sync (dio (device_complete x s w)) = is_sync (dio w)"
    and "dio_ref (dio (device_complete x s w)) =
           (if multi_bio (dio w) then dio_ref (dio w) - 1 else dio_ref (dio w))"
    and "ki_sync (iocb (device_complete x s w)) = ki_sync (iocb w)"
    and "IOCB_NOWAIT (iocb (device_complete x s w)) = IOCB_NOWAIT (iocb w)"
    and "bi_end_io (bios (device_complete x s w) y) = bi_end_io (bios w y)"
  unfolding device_complete_dio [OF assms] by simp_all

lemma inv_complete:
  assumes "dio_inv w"
  shows "dio_inv (device_complete x s w)"
proof (cases "x \<in> set (queue w)")
  case False
  then show ?thesis using assms by (simp add: device_complete_def)
next
  case True
  then have e: "bi_end_io (bios w x) = BLKDEV_BIO_END_IO" and ne: "x \<notin> set (ended w)"
    using assms by (auto simp add: dio_inv_def)
  have dq: "distinct (queue w)" using assms by (simp add: dio_inv_def)
  note len = length_removeAll_distinct [OF dq True]
  note obs = device_complete_obs [OF True e]
  have single: "length (queue w) \<le> Suc 0 \<Longrightarrow> removeAll x (queue w) = []"
    using len by (cases "removeAll x (queue w)") auto
  show ?thesis
  proof (cases "pc w")
    case PC_entry
    then show ?thesis using assms by (simp add: dio_inv_def)
  next
    case (PC_loop b pos)
    then show ?thesis
      using assms True ne len
      by (auto simp add: dio_inv_def in_loop_def obs distinct_removeAll)
  next
    case (PC_wait r)
    then show ?thesis
      using assms True ne len
      by (auto simp add: dio_inv_def after_loop_def obs distinct_removeAll single split: if_splits)
  next
    case (PC_simple_wait b r sd)
    then show ?thesis using assms by (simp add: dio_inv_def)
  next
    case (PC_return r)
    then show ?thesis
      using assms True ne len
      by (auto simp add: dio_inv_def after_loop_def aborted_def obs distinct_removeAll single split: if_splits)
  qed
qed

lemma block_nfin [simp]:
  "nfin (loop_prepare b p w) = nfin w"
  "nfin (acquired b p w) = nfin w"
  "nfin (loop_account b w) = nfin w"
  "nfin (loop_last b r w) = nfin w"
  "nfin (loop_more b p n w) = nfin w"
  "nfin (loop_abort b w) = nfin w"
  "nfin (loop_break r w) = nfin w"
  "nfin (bio_put b w) = nfin w"
  by (simp_all add: nfin_def)

lemma block_outcomes [simp]:
  "outcomes (trace (loop_prepare b p w)) = outcomes (trace w)"
  "outcomes (trace (acquired b p w)) = outcomes (trace w)"
  "outcomes (trace (loop_account b w)) = outcomes (trace w)"
  "outcomes (trace (loop_last b r w)) = outcomes (trace w)"
  "outcomes (trace (loop_more b p n w)) = outcomes (trace w)"
  "outcomes (trace (loop_abort b w)) = outcomes (trace w)"
  "outcomes (trace (loop_break r w)) = outcomes (trace w)"
  "outcomes (trace (bio_put b w)) = outcomes (trace w)"
  by simp_all

lemma block_ended [simp]:
  "ended (loop_prepare b p w) = ended w"
  "ended (acquired b p w) = ended w"
  "ended (loop_account b w) = ended w"
  "ended (loop_last b r w) = ended w"
  "ended (loop_more b p n w) = ended w"
  "ended (loop_abort b w) = ended w"
  "ended (loop_break r w) = ended w"
  "ended (bio_put b w) = ended w"
  by (simp_all add: ended_def)

lemma loop_fail_dio:
  "loop_fail b r (loop_prepare b pos w) =
     loop_break r (blkdev_bio_end_io b (emit (EvEndio b BLK_STS_IOERR)
       (upd_bio b (\<lambda>x. x\<lparr>bi_status := BLK_STS_IOERR\<rparr>) (loop_prepare b pos w))))"
  by (simp add: loop_fail_def bio_endio_dio)

lemma inv_loop_fail:
  assumes "dio_inv w" and "pc w = PC_loop b pos" and "pages_for b w = []"
  shows "dio_inv (uu_blkdev_direct_IO_loop b pos w)"
proof -
  let ?w' = "uu_blkdev_direct_IO_loop b pos w"
  have eq: "?w' = loop_break (- EFAULT) (blkdev_bio_end_io b (emit (EvEndio b BLK_STS_IOERR)
       (upd_bio b (\<lambda>x. x\<lparr>bi_status := BLK_STS_IOERR\<rparr>) (loop_prepare b pos w))))"
    using assms(3) by (simp add: loop_fail_eq loop_fail_dio)
  have o: "queue ?w' = queue w" "ended ?w' = b # ended w" "nbios ?w' = nbios w"
    "multi_bio (dio ?w') = multi_bio (dio w)" "is_sync (dio ?w') = is_sync (dio w)"
    "dio_ref (dio ?w') = (if multi_bio (dio w) then dio_ref (dio w) - 1 else dio_ref (dio w))"
    "nfin ?w' = nfin w + (if \<not> multi_bio (dio w) \<or> dio_ref (dio w) = 1 then 1 else 0)"
    "ki_sync (iocb ?w') = ki_sync (iocb w)"
    "pc ?w' = (if \<not> ki_sync (iocb w) then PC_return (- EIOCBQUEUED) else PC_wait (- EFAULT))"
    unfolding eq by simp_all
  have e: "bi_end_io (bios ?w' x) = (if x = b then BLKDEV_BIO_END_IO else bi_end_io (bios w x))" for x
    unfolding eq by simp
  have il: "in_loop b w" using assms(1,2) by (simp add: dio_inv_def)
  have nb: "b \<notin> set (queue w)" "b \<notin> set (ended w)"
    using il by (auto simp add: in_loop_def)
  have al: "after_loop ?w'"
    using il unfolding after_loop_def o by (auto simp add: in_loop_def)
  show ?thesis
    using assms(1) al nb unfolding dio_inv_def o e by auto
qed

lemma bytes_left_le: "bytes_left b w \<le> iov_iter_count (iter w)"
proof -
  have "sum_list (map fst (drop n xs)) \<le> sum_list (map fst xs)" for n and xs :: "(nat \<times> bool) list"
    by (metis append_take_drop_id le_add2 map_append sum_list.append)
  then show ?thesis
    by (simp add: bytes_left_def rest_pages_def iov_iter_count_def)
qed

lemma inv_loop_abort:
  assumes "dio_inv w" and "pc w = PC_loop b pos" and "pages_for b w \<noteq> []"
    and "IOCB_NOWAIT (iocb w)" and "bytes_left b w \<noteq> 0"
  shows "dio_inv (uu_blkdev_direct_IO_loop b pos w)"
proof -
  let ?w' = "uu_blkdev_direct_IO_loop b pos w"
  have eq: "?w' = loop_abort b (acquired b pos w)"
    using assms(3-5) by (rule loop_abort_eq)
  have il: "in_loop b w" using assms(1,2) by (simp add: dio_inv_def)
  have "iov_iter_count (iter w) \<noteq> 0"
    using bytes_left_le [of b w] assms(5) by simp
  then have nm: "\<not> multi_bio (dio w)"
    using il assms(4) by (auto simp add: in_loop_def)
  then have b0: "b = 0" "queue w = []" "ended w = []"
    using il by (auto simp add: in_loop_def)
  have ab: "aborted ?w'"
    using il nm b0 unfolding eq by (simp add: aborted_def in_loop_def)
  show ?thesis
    using assms(1) ab b0 unfolding eq by (simp add: dio_inv_def)
qed

lemma inv_loop_last:
  assumes "dio_inv w" and "pc w = PC_loop b pos" and "pages_for b w \<noteq> []"
    and "\<not> (IOCB_NOWAIT (iocb w) \<and> bytes_left b w \<noteq> 0)"
    and "rest_pages b w = [] \<or> BIO_MAX_VECS w = 0"
  shows "dio_inv (uu_blkdev_direct_IO_loop b pos w)"
proof -
  let ?w' = "uu_blkdev_direct_IO_loop b pos w"
  have eq: "?w' = loop_last b 0 (loop_account b (acquired b pos w))"
    using assms(3-5) by (rule loop_last_eq)
  have o: "queue ?w' = queue w @ [b]" "ended ?w' = ended w" "nbios ?w' = nbios w"
    "multi_bio (dio ?w') = multi_bio (dio w)" "is_sync (dio ?w') = is_sync (dio w)"
    "dio_ref (dio ?w') = dio_ref (dio w)" "nfin ?w' = nfin w"
    "ki_sync (iocb ?w') = ki_sync (iocb w)"
    "pc ?w' = (if \<not> ki_sync (iocb w) then PC_return (- EIOCBQUEUED) else PC_wait 0)"
    unfolding eq by simp_all
  have e: "bi_end_io (bios ?w' x) = (if x = b then BLKDEV_BIO_END_IO else bi_end_io (bios w x))" for x
    unfolding eq by simp
  have il: "in_loop b w" using assms(1,2) by (simp add: dio_inv_def)
  have nb: "b \<notin> set (queue w)" "b \<notin> set (ended w)"
    using il by (auto simp add: in_loop_def)
  have al: "after_loop ?w'"
    using il unfolding after_loop_def o by (auto simp add: in_loop_def)
  show ?thesis
    using assms(1) al nb unfolding dio_inv_def o e by auto
qed

lemma inv_loop_more:
  assumes "dio_inv w" and "pc w = PC_loop b pos" and "pages_for b w \<noteq> []"
    and "\<not> (IOCB_NOWAIT (iocb w) \<and> bytes_left b w \<noteq> 0)"
    and "rest_pages b w \<noteq> []" and "BIO_MAX_VECS w \<noteq> 0"
  shows "dio_inv (uu_blkdev_direct_IO_loop b pos w)"
proof -
  let ?w' = "uu_blkdev_direct_IO_loop b pos w"
  let ?p = "pos + bi_size (bios (acquired b pos w) b)"
  have eq: "?w' = loop_more b ?p (min (length (rest_pages b w)) (BIO_MAX_VECS w))
      (loop_account b (acquired b pos w))"
    using assms(3-6) by (rule loop_more_eq)
  have o: "queue ?w' = queue w @ [b]" "ended ?w' = ended w" "nbios ?w' = nbios w + 1"
    "multi_bio (dio ?w') = True" "is_sync (dio ?w') = is_sync (dio w)"
    "dio_ref (dio ?w') = (if multi_bio (dio w) then dio_ref (dio w) + 1 else 2)" "nfin ?w' = nfin w"
    "ki_sync (iocb ?w') = ki_sync (iocb w)" "IOCB_NOWAIT (iocb ?w') = IOCB_NOWAIT (iocb w)"
    "pc ?w' = PC_loop (nbios w) ?p"
    "iov_iter_count (iter ?w') = bytes_left b w"
    unfolding eq by simp_all
  have e: "x \<noteq> nbios w \<Longrightarrow>
      bi_end_io (bios ?w' x) = (if x = b then BLKDEV_BIO_END_IO else bi_end_io (bios w x))" for x
    unfolding eq by simp
  have il: "in_loop b w" using assms(1,2) by (simp add: dio_inv_def)
  have bd: "x \<in> set (queue w) \<union> set (ended w) \<Longrightarrow> x < b" for x
    using il by (simp add: in_loop_def)
  have sb: "nbios w = Suc b" using il by (simp add: in_loop_def)
  have nb: "b \<notin> set (queue w)" "b \<notin> set (ended w)" "nbios w \<notin> set (queue w)"
    using bd [of b] bd [of "Suc b"] sb by auto
  have bl: "IOCB_NOWAIT (iocb w) \<longrightarrow> bytes_left b w = 0"
    using assms(4) by simp
  have nl: "in_loop (nbios w) ?w'"
    using il bl unfolding in_loop_def [of "nbios w"] o
    by (auto simp add: in_loop_def less_Suc_eq)
  have e1: "bi_end_io (bios ?w' b) = BLKDEV_BIO_END_IO"
    using e [of b] sb by simp
  have e2: "bi_end_io (bios ?w' x) = bi_end_io (bios w x)" if "x \<in> set (queue w)" for x
  proof -
    from that nb have "x \<noteq> nbios w" and "x \<noteq> b" by auto
    then show ?thesis using e [of x] by simp
  qed
  show ?thesis
    using assms(1) nl nb sb unfolding dio_inv_def o by (auto simp add: e1 e2)
qed

lemma inv_loop:
  assumes "dio_inv w" and "pc w = PC_loop b pos"
  shows "dio_inv (uu_blkdev_direct_IO_loop b pos w)"
  using assms inv_loop_fail inv_loop_abort inv_loop_last inv_loop_more by blast

lemma inv_wait:
  assumes "dio_inv w" and "pc w = PC_wait r"
  shows "dio_inv (uu_blkdev_direct_IO_wait r w)"
  using assms
  by (auto simp add: uu_blkdev_direct_IO_wait_def Let_def dio_inv_def after_loop_def)

lemma inv_step: "dio_inv w \<Longrightarrow> dio_inv (step a w)"
proof (cases a)
  case Run
  assume "dio_inv w"
  then show ?thesis
    using Run inv_loop inv_wait
    by (cases "pc w") (simp_all add: thread_step_def, simp_all add: dio_inv_def)
next
  case (Complete x s)
  assume "dio_inv w"
  then show ?thesis using Complete by (simp add: inv_complete)
qed

lemma inv_run: "dio_inv w \<Longrightarrow> dio_inv (run as w)"
  by (induction as arbitrary: w) (simp_all add: inv_step)

lemma inv_start: "\<not> misaligned w \<Longrightarrow> dio_inv (uu_blkdev_direct_IO n (fresh w))"
  by (simp add: dio_inv_def in_loop_def nfin_def ended_def)

lemmas eval_defs = thread_step_def device_complete_def bio_endio_def blkdev_bio_end_io_def
  uu_blkdev_direct_IO_loop_def uu_blkdev_direct_IO_wait_def uu_blkdev_direct_IO_def
  loop_fail_def loop_abort_def loop_account_def loop_last_def loop_more_def loop_break_def
  loop_prepare_def end_io_status_def end_io_last_def end_io_finalize_def end_io_release_def
  atomic_dec_and_test_def bio_iov_iter_get_pages_def pages_for_def misaligned_def
  iov_iter_alignment_def iov_iter_count_def bio_iov_vecs_to_alloc_def bio_put_def
  bio_check_pages_dirty_def submit_bio_def bio_store_def upd_bio_def upd_dio_def emit_def
  fresh_def new_bio_def nfin_def Let_def prim_defs

subsection \<open>The steps of a request in the general path\<close>

lemma step_cases [consumes 1, case_names idle complete fail abort last more woken]:
  assumes "dio_inv w"
  obtains
    (idle) "step a w = w"
  | (complete) x s where "a = Complete x s" "x \<in> set (queue w)"
      "bi_end_io (bios w x) = BLKDEV_BIO_END_IO"
      "step a w = blkdev_bio_end_io x
         (emit (EvEndio x (if s \<noteq> BLK_STS_OK then s else bi_status (bios w x)))
            ((if s \<noteq> BLK_STS_OK then upd_bio x (\<lambda>b. b\<lparr>bi_status := s\<rparr>) w else w)
               \<lparr>queue := removeAll x (queue w)\<rparr>))"
  | (fail) b pos where "a = Run" "pc w = PC_loop b pos" "in_loop b w" "pages_for b w = []"
      "step a w = loop_break (- EFAULT) (blkdev_bio_end_io b (emit (EvEndio b BLK_STS_IOERR)
         (upd_bio b (\<lambda>x. x\<lparr>bi_status := BLK_STS_IOERR\<rparr>) (loop_prepare b pos w))))"
  | (abort) pos where "a = Run" "pc w = PC_loop 0 pos" "in_loop 0 w" "pages_for 0 w \<noteq> []"
      "IOCB_NOWAIT (iocb w)" "bytes_left 0 w \<noteq> 0"
      "step a w = loop_abort 0 (acquired 0 pos w)"
  | (last) b pos where "a = Run" "pc w = PC_loop b pos" "in_loop b w" "pages_for b w \<noteq> []"
      "step a w = loop_last b 0 (loop_account b (acquired b pos w))"
  | (more) b pos where "a = Run" "pc w = PC_loop b pos" "in_loop b w" "pages_for b w \<noteq> []"
      "IOCB_NOWAIT (iocb w) \<longrightarrow> bytes_left b w = 0"
      "step a w = loop_more b (pos + bi_size (bios (acquired b pos w) b))
         (min (length (rest_pages b w)) (BIO_MAX_VECS w)) (loop_account b (acquired b pos w))"
  | (woken) r where "a = Run" "pc w = PC_wait r" "after_loop w" "dio_ptr (dio w) = NULL"
      "step a w = (bio_put 0 w)\<lparr>pc := PC_return
         (if (if r = 0 then blk_status_to_errno (bi_status (bios w 0)) else r) = 0
          then int_of_size (dio_size (dio w))
          else (if r = 0 then blk_status_to_errno (bi_status (bios w 0)) else r))\<rparr>"
proof (cases a)
  case (Complete x s)
  show ?thesis
  proof (cases "x \<in> set (queue w)")
    case True
    then have "bi_end_io (bios w x) = BLKDEV_BIO_END_IO"
      using assms by (simp add: dio_inv_def)
    then show ?thesis
      using complete [of x s] Complete True by (simp add: device_complete_dio)
  next
    case False
    then show ?thesis using idle Complete by (simp add: device_complete_def)
  qed
next
  case Run
  show ?thesis
  proof (cases "pc w")
    case PC_entry
    then show ?thesis using assms by (simp add: dio_inv_def)
  next
    case (PC_simple_wait b r sd)
    then show ?thesis using assms by (simp add: dio_inv_def)
  next
    case (PC_return r)
    then show ?thesis using idle Run by (simp add: thread_step_def)
  next
    case (PC_wait r)
    then have al: "after_loop w" using assms by (simp add: dio_inv_def)
    show ?thesis
    proof (cases "dio_ptr (dio w) = NULL")
      case True
      then show ?thesis
        using woken [of r] Run PC_wait al
        by (simp add: thread_step_def uu_blkdev_direct_IO_wait_def Let_def)
    next
      case False
      then show ?thesis
        using idle Run PC_wait by (simp add: thread_step_def uu_blkdev_direct_IO_wait_def)
    qed
  next
    case (PC_loop b pos)
    then have il: "in_loop b w" using assms by (simp add: dio_inv_def)
    have st: "step a w = uu_blkdev_direct_IO_loop b pos w"
      using Run PC_loop by (simp add: thread_step_def)
    show ?thesis
    proof (cases "pages_for b w = []")
      case True
      then show ?thesis
        using fail [of b pos] Run PC_loop il st by (simp add: loop_fail_eq loop_fail_dio)
    next
      case got: False
      show ?thesis
      proof (cases "IOCB_NOWAIT (iocb w) \<and> bytes_left b w \<noteq> 0")
        case True
        then have "iov_iter_count (iter w) \<noteq> 0"
          using bytes_left_le [of b w] by simp
        then have "b = 0"
          using il True by (auto simp add: in_loop_def)
        then show ?thesis
          using abort [of pos] Run PC_loop il st got True by (simp add: loop_abort_eq)
      next
        case nw: False
        show ?thesis
        proof (cases "rest_pages b w = [] \<or> BIO_MAX_VECS w = 0")
          case True
          then show ?thesis
            using last [of b pos] Run PC_loop il st got nw loop_last_eq [OF got nw True]
            by simp
        next
          case False
          then have "rest_pages b w \<noteq> []" "BIO_MAX_VECS w \<noteq> 0" by auto
          from loop_more_eq [OF got nw this] show ?thesis
            using more [of b pos] Run PC_loop il st got nw by auto
        qed
      qed
    qed
  qed
qed

lemma nfin_le_one: "dio_inv w \<Longrightarrow> nfin w \<le> 1"
  by (cases "pc w")
     (auto simp add: dio_inv_def in_loop_def after_loop_def aborted_def split: if_splits)

lemma quiescent_nfin:
  "dio_inv w \<Longrightarrow> \<not> submitting (pc w) \<Longrightarrow> queue w = [] \<Longrightarrow> 2 \<le> nbios w \<Longrightarrow> nfin w = 1"
  by (cases "pc w")
     (auto simp add: dio_inv_def after_loop_def aborted_def split: if_splits)

lemma complete_frame:
  "pc (device_complete x s w) = pc w" "nbios (device_complete x s w) = nbios w"
  by (cases "bi_end_io (bios w x)";
      simp add: device_complete_def bio_endio_def Let_def blkdev_bio_end_io_simple_def prim_defs)+

lemma complete_queue:
  "dio_inv w \<Longrightarrow> queue (device_complete x s w) = removeAll x (queue w)"
proof (cases "x \<in> set (queue w)")
  case True
  assume "dio_inv w"
  then have "bi_end_io (bios w x) = BLKDEV_BIO_END_IO"
    using True by (simp add: dio_inv_def)
  then show ?thesis using True by (simp add: device_complete_obs)
next
  case False
  then show ?thesis by (simp add: device_complete_def)
qed

lemma completions_obs:
  "dio_inv w \<Longrightarrow>
     pc (run (completions cs) w) = pc w \<and> nbios (run (completions cs) w) = nbios w \<and>
     queue (run (completions cs) w) = filter (\<lambda>x. x \<notin> fst ` set cs) (queue w)"
proof (induction cs arbitrary: w)
  case Nil
  then show ?case by (simp add: completions_def)
next
  case (Cons c cs)
  obtain x s where c: "c = (x, s)" by (cases c)
  have i: "dio_inv (device_complete x s w)" using Cons.prems by (rule inv_complete)
  have r: "run (completions (c # cs)) w = run (completions cs) (device_complete x s w)"
    by (simp add: completions_def c)
  have "filter (\<lambda>y. y \<notin> fst ` set cs) (removeAll x q) =
        filter (\<lambda>y. y \<notin> fst ` set (c # cs)) q" for q
    by (induction q) (auto simp add: c)
  then show ?case
    unfolding r using Cons.IH [OF i] Cons.prems
    by (simp add: complete_frame complete_queue)
qed

text \<open>
  C1: in the general path the finalization (\<^verbatim>\<open>ki_complete\<close> or the wake-up of the
  waiter) never runs twice, whatever the schedule; once the thread has left the
  submission loop of a request of two or more bios and no bio is in flight, it has run
  exactly once; and from any state after the loop, delivering completions for every bio
  still in flight, in any order and with any outcomes, ends with exactly one
  finalization.
\<close>

theorem finalized_exactly_once:
  assumes "\<not> misaligned w"
  shows "nfin (run as (uu_blkdev_direct_IO n (fresh w))) \<le> 1 \<and>
    (\<not> submitting (pc (run as (uu_blkdev_direct_IO n (fresh w)))) \<and>
     queue (run as (uu_blkdev_direct_IO n (fresh w))) = [] \<and>
     2 \<le> nbios (run as (uu_blkdev_direct_IO n (fresh w))) \<longrightarrow>
       nfin (run as (uu_blkdev_direct_IO n (fresh w))) = 1) \<and>
    (\<not> submitting (pc (run as (uu_blkdev_direct_IO n (fresh w)))) \<and>
     set (queue (run as (uu_blkdev_direct_IO n (fresh w)))) \<subseteq> fst ` set cs \<and>
     2 \<le> nbios (run as (uu_blkdev_direct_IO n (fresh w))) \<longrightarrow>
       nfin (run (completions cs) (run as (uu_blkdev_direct_IO n (fresh w)))) = 1)"
proof -
  let ?w = "run as (uu_blkdev_direct_IO n (fresh w))"
  have i: "dio_inv ?w"
    using assms by (intro inv_run inv_start)
  have j: "dio_inv (run (completions cs) ?w)"
    using i by (rule inv_run)
  have "set (queue ?w) \<subseteq> fst ` set cs \<Longrightarrow> queue (run (completions cs) ?w) = []"
    using completions_obs [OF i, of cs] by (auto simp add: filter_empty_conv)
  then show ?thesis
    using nfin_le_one [OF i] quiescent_nfin [OF i] quiescent_nfin [OF j]
      completions_obs [OF i, of cs]
    by auto
qed

theorem finalized_exactly_once_witness:
  "\<not> misaligned (example_world 1 (example_iocb 0 False False)
      (example_iter READ [(1024, True), (512, True), (512, True)])) \<and>
   nbios (run [Run, Run, Complete 0 BLK_STS_OK, Run]
     (uu_blkdev_direct_IO 1 (fresh (example_world 1 (example_iocb 0 False False)
        (example_iter READ [(1024, True), (512, True), (512, True)]))))) = 3 \<and>
   queue (run [Run, Run, Complete 0 BLK_STS_OK, Run]
     (uu_blkdev_direct_IO 1 (fresh (example_world 1 (example_iocb 0 False False)
        (example_iter READ [(1024, True), (512, True), (512, True)]))))) = [1, 2] \<and>
   nfin (run (completions [(2, BLK_STS_IOERR), (1, BLK_STS_OK)])
     (run [Run, Run, Complete 0 BLK_STS_OK, Run]
       (uu_blkdev_direct_IO 1 (fresh (example_world 1 (example_iocb 0 False False)
          (example_iter READ [(1024, True), (512, True), (512, True)])))))) = 1"
  using finalized_exactly_once
    [of "example_world 1 (example_iocb 0 False False)
           (example_iter READ [(1024, True), (512, True), (512, True)])"
        "[Run, Run, Complete 0 BLK_STS_OK, Run]" 1 "[(2, BLK_STS_IOERR), (1, BLK_STS_OK)]"]
  by (simp add: example_defs eval_defs)

lemma multi_iff:
  assumes "dio_inv w"
  shows "multi_bio (dio w) \<longleftrightarrow> 2 \<le> nbios w"
proof (cases "pc w")
  case (PC_loop b pos)
  then have "in_loop b w" using assms by (simp add: dio_inv_def)
  then have "nbios w = b + 1" and "multi_bio (dio w) \<longleftrightarrow> b \<noteq> 0"
    by (simp_all add: in_loop_def)
  then show ?thesis by auto
next
  case (PC_wait r)
  then have "after_loop w" using assms by (simp add: dio_inv_def)
  then show ?thesis by (simp add: after_loop_def)
next
  case (PC_return r)
  then have "after_loop w \<or> aborted w" using assms by (simp add: dio_inv_def)
  then show ?thesis by (auto simp add: after_loop_def aborted_def)
qed (use assms in \<open>simp_all add: dio_inv_def\<close>)

lemma ref_count:
  assumes "dio_inv w" and "multi_bio (dio w)"
  shows "dio_ref (dio w) = int (nbios w) - int (length (ended w))"
proof (cases "pc w")
  case (PC_loop b pos)
  then have "in_loop b w" using assms by (simp add: dio_inv_def)
  then have "nbios w = b + 1" and "length (queue w) + length (ended w) = b"
    and "dio_ref (dio w) = 1 + int (length (queue w))"
    using assms(2) by (simp_all add: in_loop_def)
  then show ?thesis by linarith
next
  case (PC_wait r)
  then have "after_loop w" using assms by (simp add: dio_inv_def)
  then have "length (queue w) + length (ended w) = nbios w"
    and "dio_ref (dio w) = int (length (queue w))"
    using assms(2) by (simp_all add: after_loop_def)
  then show ?thesis by linarith
next
  case (PC_return r)
  then have "after_loop w \<or> aborted w" using assms by (simp add: dio_inv_def)
  then have "after_loop w" using assms(2) by (auto simp add: aborted_def)
  then have "length (queue w) + length (ended w) = nbios w"
    and "dio_ref (dio w) = int (length (queue w))"
    using assms(2) by (simp_all add: after_loop_def)
  then show ?thesis by linarith
qed (use assms in \<open>simp_all add: dio_inv_def\<close>)

lemma nbios_step:
  assumes "dio_inv w"
  shows "nbios (step a w) = nbios w \<or>
         (a = Run \<and> nbios (step a w) = nbios w + 1 \<and>
          dio_ref (dio (step a w)) = (if nbios w = 1 then 2 else dio_ref (dio w) + 1))"
  using assms
proof (cases rule: step_cases [where a = a])
  case (more b pos)
  then show ?thesis by (auto simp add: in_loop_def)
qed simp_all

lemma nbios_run: "dio_inv w \<Longrightarrow> nbios w \<le> nbios (run bs w)"
proof (induction bs arbitrary: w)
  case Nil
  then show ?case by simp
next
  case (Cons a bs)
  have "nbios w \<le> nbios (step a w)"
    using nbios_step [OF Cons.prems, of a] by auto
  also have "\<dots> \<le> nbios (run bs (step a w))"
    using Cons.prems by (intro Cons.IH inv_step)
  finally show ?case by simp
qed

lemma run_append: "run (as @ bs) w = run bs (run as w)"
  by (induction as arbitrary: w) simp_all

text \<open>
  C4: \<open>multi_bio\<close> is false when the request starts; in every reachable state it is
  set exactly when a second bio has been created, and since bios are never taken back it
  never reverts. The step that creates the second bio sets the reference count to 2,
  every later step that creates a bio adds exactly one to it, and while \<open>multi_bio\<close>
  is set the count is the number of bios created minus the number completed.
\<close>

theorem multi_flag_and_reference_count:
  assumes "\<not> misaligned w"
  shows "\<not> multi_bio (dio (uu_blkdev_direct_IO n (fresh w))) \<and>
    (multi_bio (dio (run as (uu_blkdev_direct_IO n (fresh w)))) \<longleftrightarrow>
       2 \<le> nbios (run as (uu_blkdev_direct_IO n (fresh w)))) \<and>
    nbios (run as (uu_blkdev_direct_IO n (fresh w))) \<le>
       nbios (run (as @ bs) (uu_blkdev_direct_IO n (fresh w))) \<and>
    (multi_bio (dio (run as (uu_blkdev_direct_IO n (fresh w)))) \<longrightarrow>
       multi_bio (dio (run (as @ bs) (uu_blkdev_direct_IO n (fresh w))))) \<and>
    (multi_bio (dio (run as (uu_blkdev_direct_IO n (fresh w)))) \<longrightarrow>
       dio_ref (dio (run as (uu_blkdev_direct_IO n (fresh w)))) =
         int (nbios (run as (uu_blkdev_direct_IO n (fresh w)))) -
         int (length (ended (run as (uu_blkdev_direct_IO n (fresh w)))))) \<and>
    (nbios (step a (run as (uu_blkdev_direct_IO n (fresh w)))) \<noteq>
       nbios (run as (uu_blkdev_direct_IO n (fresh w))) \<longrightarrow>
     a = Run \<and>
     nbios (step a (run as (uu_blkdev_direct_IO n (fresh w)))) =
       nbios (run as (uu_blkdev_direct_IO n (fresh w))) + 1 \<and>
     dio_ref (dio (step a (run as (uu_blkdev_direct_IO n (fresh w))))) =
       (if nbios (run as (uu_blkdev_direct_IO n (fresh w))) = 1 then 2
        else dio_ref (dio (run as (uu_blkdev_direct_IO n (fresh w)))) + 1))"
proof -
  let ?w0 = "uu_blkdev_direct_IO n (fresh w)"
  have i: "dio_inv (run as ?w0)"
    using assms by (intro inv_run inv_start)
  have j: "dio_inv (run (as @ bs) ?w0)"
    using assms by (intro inv_run inv_start)
  have m: "nbios (run as ?w0) \<le> nbios (run (as @ bs) ?w0)"
    unfolding run_append using i by (rule nbios_run)
  have s: "\<not> multi_bio (dio ?w0)" using assms by simp
  show ?thesis
    using s m multi_iff [OF i] multi_iff [OF j] ref_count [OF i] nbios_step [OF i, of a]
    by auto
qed

theorem multi_flag_and_reference_count_witness:
  "\<not> misaligned (example_world 1 (example_iocb 0 False False)
      (example_iter READ [(1024, True), (512, True), (512, True)])) \<and>
   \<not> multi_bio (dio (run [] (uu_blkdev_direct_IO 1 (fresh (example_world 1
      (example_iocb 0 False False)
      (example_iter READ [(1024, True), (512, True), (512, True)])))))) \<and>
   multi_bio (dio (run [Run] (uu_blkdev_direct_IO 1 (fresh (example_world 1
      (example_iocb 0 False False)
      (example_iter READ [(1024, True), (512, True), (512, True)])))))) \<and>
   dio_ref (dio (run [Run] (uu_blkdev_direct_IO 1 (fresh (example_world 1
      (example_iocb 0 False False)
      (example_iter READ [(1024, True), (512, True), (512, True)])))))) = 2 \<and>
   dio_ref (dio (step Run (run [Run] (uu_blkdev_direct_IO 1 (fresh (example_world 1
      (example_iocb 0 False False)
      (example_iter READ [(1024, True), (512, True), (512, True)]))))))) = 3"
  using multi_flag_and_reference_count
    [of "example_world 1 (example_iocb 0 False False)
           (example_iter READ [(1024, True), (512, True), (512, True)])" 1 "[Run]" "[]" Run]
    multi_flag_and_reference_count
    [of "example_world 1 (example_iocb 0 False False)
           (example_iter READ [(1024, True), (512, True), (512, True)])" 1 "[]" "[]" Run]
  by (simp add: example_defs eval_defs ended_def)

subsection \<open>The byte total\<close>

lemma end_io_reports:
  "reports (trace (blkdev_bio_end_io b w)) =
     (if (\<not> multi_bio (dio w) \<or> dio_ref (dio w) = 1) \<and> \<not> is_sync (dio w)
      then [if bi_status (bios (end_io_status b w) 0) = BLK_STS_OK
            then int (dio_size (dio w))
            else blk_status_to_errno (bi_status (bios (end_io_status b w) 0))]
      else []) @ reports (trace w)"
  by (simp add: blkdev_bio_end_io_def Let_def case_prod_beta)

lemma end_io_reports_cases:
  assumes "r \<in> set (reports (trace (blkdev_bio_end_io b w)))"
  shows "r \<in> set (reports (trace w)) \<or> r < 0 \<or> r = int (dio_size (dio w))"
  using assms blk_status_to_errno_neg [of "bi_status (bios (end_io_status b w) 0)"]
  unfolding end_io_reports by (auto split: if_splits)

lemma end_io_reports_error:
  assumes "r \<in> set (reports (trace (blkdev_bio_end_io b w)))"
    and "bi_status (bios w 0) \<noteq> BLK_STS_OK"
  shows "r \<in> set (reports (trace w)) \<or> r < 0"
proof -
  have "bi_status (bios (end_io_status b w) 0) \<noteq> BLK_STS_OK"
    using assms(2) by simp
  then show ?thesis
    using assms(1) blk_status_to_errno_neg [of "bi_status (bios (end_io_status b w) 0)"]
    unfolding end_io_reports by (auto split: if_splits)
qed

lemma block_reports [simp]:
  "reports (trace (loop_prepare b p w)) = reports (trace w)"
  "reports (trace (acquired b p w)) = reports (trace w)"
  "reports (trace (loop_account b w)) = reports (trace w)"
  "reports (trace (loop_last b r w)) = reports (trace w)"
  "reports (trace (loop_more b p n w)) = reports (trace w)"
  "reports (trace (loop_abort b w)) = reports (trace w)"
  "reports (trace (loop_break r w)) = reports (trace w)"
  "reports (trace (bio_put b w)) = reports (trace w)"
  by simp_all

lemma block_queued [simp]:
  "queued_bytes (loop_prepare b p w) = queued_bytes w"
  "queued_bytes (acquired b p w) = queued_bytes w"
  "queued_bytes (loop_account b w) = queued_bytes w"
  "queued_bytes (loop_last b r w) = bi_size (bios w b) + queued_bytes w"
  "queued_bytes (loop_more b p n w) = bi_size (bios w b) + queued_bytes w"
  "queued_bytes (loop_abort b w) = queued_bytes w"
  "queued_bytes (loop_break r w) = queued_bytes w"
  "queued_bytes (bio_put b w) = queued_bytes w"
  "queued_bytes (blkdev_bio_end_io b w) = queued_bytes w"
  "queued_bytes (emit (EvEndio b s) w) = queued_bytes w"
  "queued_bytes (upd_bio b f w) = queued_bytes w"
  "queued_bytes (w\<lparr>queue := q\<rparr>) = queued_bytes w"
  "queued_bytes (w\<lparr>pc := c\<rparr>) = queued_bytes w"
  by (simp_all add: queued_bytes_def)

lemma no_reports: "nfin w = 0 \<Longrightarrow> reports (trace w) = []"
proof -
  have "length (filter is_finalize t) = 0 \<Longrightarrow> reports t = []" for t
    by (induction t rule: reports.induct) (simp_all split: if_splits)
  then show "nfin w = 0 \<Longrightarrow> reports (trace w) = []" by (simp add: nfin_def)
qed

lemma size_step:
  assumes "dio_inv w" and "size_inv w"
  shows "size_inv (step a w)"
  using assms(1)
proof (cases rule: step_cases [where a = a])
  case idle
  then show ?thesis using assms(2) by simp
next
  case (complete x s)
  let ?v = "emit (EvEndio x (if s \<noteq> BLK_STS_OK then s else bi_status (bios w x)))
     ((if s \<noteq> BLK_STS_OK then upd_bio x (\<lambda>b. b\<lparr>bi_status := s\<rparr>) w else w)
        \<lparr>queue := removeAll x (queue w)\<rparr>)"
  have v: "reports (trace ?v) = reports (trace w)" "dio_size (dio ?v) = dio_size (dio w)"
    "queued_bytes ?v = queued_bytes w" "pc ?v = pc w"
    by (simp_all add: queued_bytes_def)
  have r: "\<forall>r\<in>set (reports (trace (step a w))). r < 0 \<or> r = int (dio_size (dio w))"
    using assms(2) end_io_reports_cases [of _ x ?v] unfolding complete(4) v size_inv_def
    by blast
  have o: "dio_size (dio (step a w)) = dio_size (dio w)"
    "queued_bytes (step a w) = queued_bytes w" "pc (step a w) = pc w"
    unfolding complete(4) by (simp_all add: v)
  show ?thesis
    using assms(2) r unfolding size_inv_def o by simp
next
  case (fail b pos)
  let ?v = "emit (EvEndio b BLK_STS_IOERR)
     (upd_bio b (\<lambda>x. x\<lparr>bi_status := BLK_STS_IOERR\<rparr>) (loop_prepare b pos w))"
  have v: "reports (trace ?v) = reports (trace w)" "dio_size (dio ?v) = dio_size (dio w)"
    "queued_bytes ?v = queued_bytes w"
    by (simp_all add: queued_bytes_def)
  have "reports (trace (step a w)) = reports (trace (blkdev_bio_end_io b ?v))"
    unfolding fail(5) by simp
  then have r: "\<forall>r\<in>set (reports (trace (step a w))). r < 0 \<or> r = int (dio_size (dio w))"
    using assms(2) end_io_reports_cases [of _ b ?v] unfolding v size_inv_def
    by metis
  have o: "dio_size (dio (step a w)) = dio_size (dio w)"
    "queued_bytes (step a w) = queued_bytes w"
    "pc (step a w) = (if \<not> ki_sync (iocb w) then PC_return (- EIOCBQUEUED) else PC_wait (- EFAULT))"
    unfolding fail(5) by (simp_all add: v)
  show ?thesis
    using assms(2) r unfolding size_inv_def o by simp
next
  case (abort pos)
  then show ?thesis
    using assms(2) by (auto simp add: size_inv_def)
next
  case (last b pos)
  then have "reports (trace w) = []" by (simp add: in_loop_def no_reports)
  then show ?thesis
    using assms(2) last by (simp add: size_inv_def)
next
  case (more b pos)
  then have "reports (trace w) = []" by (simp add: in_loop_def no_reports)
  then show ?thesis
    using assms(2) more by (simp add: size_inv_def)
next
  case (woken r)
  have "blk_status_to_errno (bi_status (bios w 0)) = 0 \<or>
        blk_status_to_errno (bi_status (bios w 0)) < 0"
    using blk_status_to_errno_neg [of "bi_status (bios w 0)"]
    by (auto simp add: blk_status_to_errno_zero)
  then show ?thesis
    using assms(2) woken by (auto simp add: size_inv_def)
qed

lemma size_run: "dio_inv w \<Longrightarrow> size_inv w \<Longrightarrow> size_inv (run as w)"
  by (induction as arbitrary: w) (simp_all add: size_step inv_step)

lemma size_start: "\<not> misaligned w \<Longrightarrow> size_inv (uu_blkdev_direct_IO n (fresh w))"
  by (simp add: size_inv_def queued_bytes_def)

lemma complete_size: "dio_size (dio (device_complete x s w)) = dio_size (dio w)"
  by (cases "bi_end_io (bios w x)";
      simp add: device_complete_def bio_endio_def Let_def blkdev_bio_end_io_simple_def prim_defs)

lemma completions_size: "dio_size (dio (run (completions cs) w)) = dio_size (dio w)"
  by (induction cs arbitrary: w) (simp_all add: completions_def complete_size split: prod.splits)

lemma int_of_size_small: "n < 2 ^ 31 \<Longrightarrow> int_of_size n = int n"
  by (simp add: int_of_size_def Let_def)



subsection \<open>The sticky status\<close>

lemma status_step:
  assumes "dio_inv w" and "bi_status (bios w 0) = sticky (outcomes (trace w))"
  shows "bi_status (bios (step a w) 0) = sticky (outcomes (trace (step a w)))"
  using assms(1)
proof (cases rule: step_cases [where a = a])
  case idle
  then show ?thesis using assms(2) by simp
next
  case (complete x s)
  show ?thesis
    unfolding complete(4) using assms(2)
    by (cases "x = 0") (simp_all add: end_io_bi_status)
next
  case (fail b pos)
  show ?thesis
    unfolding fail(5) using assms(2)
    by (cases "b = 0") (simp_all add: end_io_bi_status)
next
  case (abort pos)
  show ?thesis
    unfolding abort(7) using assms(2) by simp
next
  case (last b pos)
  show ?thesis
    unfolding last(5) using assms(2) by simp
next
  case (more b pos)
  then have "nbios w \<noteq> 0" by (simp add: in_loop_def)
  then show ?thesis
    unfolding more(6) using assms(2) by simp
next
  case (woken r)
  show ?thesis
    unfolding woken(5) using assms(2) by simp
qed

lemma status_run:
  "dio_inv w \<Longrightarrow> bi_status (bios w 0) = sticky (outcomes (trace w)) \<Longrightarrow>
     bi_status (bios (run as w) 0) = sticky (outcomes (trace (run as w)))"
  by (induction as arbitrary: w) (simp_all add: status_step inv_step)

lemma status_start:
  "\<not> misaligned w \<Longrightarrow>
     bi_status (bios (uu_blkdev_direct_IO n (fresh w)) 0) =
     sticky (outcomes (trace (uu_blkdev_direct_IO n (fresh w))))"
  by (simp add: new_bio_def)

lemma first_error_append:
  "first_error (xs @ ys) =
     (if first_error xs \<noteq> BLK_STS_OK then first_error xs else first_error ys)"
  by (induction xs rule: first_error.induct) simp_all

lemma sticky_first_error:
  "(\<forall>s. (0, s) \<in> set os \<longrightarrow> s = BLK_STS_OK) \<Longrightarrow> sticky os = first_error (rev os)"
  by (induction os rule: sticky.induct) (auto simp add: first_error_append)

lemma sticky_own:
  "(0, s) \<in> set os \<Longrightarrow> s \<noteq> BLK_STS_OK \<Longrightarrow> distinct (map fst os) \<Longrightarrow> sticky os = s"
proof (induction os rule: sticky.induct)
  case 1
  then show ?case by simp
next
  case (2 b t older)
  show ?case
  proof (cases "(b, t) = (0, s)")
    case True
    then show ?thesis using "2.prems" by simp
  next
    case False
    then have m: "(0, s) \<in> set older" using "2.prems"(1) by auto
    then have "0 \<in> fst ` set older" by force
    then have "b \<noteq> 0" using "2.prems" by auto
    moreover have "sticky older = s"
      using m "2.prems" by (intro "2.IH") simp_all
    ultimately show ?thesis using "2.prems" by simp
  qed
qed




subsection \<open>The waiter\<close>

lemma sync_step:
  assumes "dio_inv w"
  shows "ki_sync (iocb (step a w)) = ki_sync (iocb w)"
  using assms
proof (cases rule: step_cases [where a = a])
  case (complete x s)
  show ?thesis unfolding complete(4) by simp
next
  case (fail b pos)
  show ?thesis unfolding fail(5) by simp
next
  case (abort pos)
  show ?thesis unfolding abort(7) by simp
next
  case (last b pos)
  show ?thesis unfolding last(5) by simp
next
  case (more b pos)
  show ?thesis unfolding more(6) by simp
next
  case (woken r)
  show ?thesis unfolding woken(5) by simp
qed simp_all

lemma sync_run: "dio_inv w \<Longrightarrow> ki_sync (iocb (run as w)) = ki_sync (iocb w)"
  by (induction as arbitrary: w) (simp_all add: sync_step inv_step)

lemma multi_step:
  assumes "dio_inv w" and "multi_bio (dio w)"
  shows "multi_bio (dio (step a w))"
proof -
  have "2 \<le> nbios w" using assms multi_iff by simp
  then have "2 \<le> nbios (step a w)" using nbios_step [OF assms(1), of a] by auto
  then show ?thesis using multi_iff [OF inv_step [OF assms(1)], of a] by simp
qed

lemma end_io_ptr:
  "dio_ptr (dio (blkdev_bio_end_io b w)) =
     (if is_sync (dio w) \<and> (\<not> multi_bio (dio w) \<or> dio_ref (dio w) = 1) then NULL
      else dio_ptr (dio w))"
  by (simp add: blkdev_bio_end_io_def Let_def case_prod_beta)

lemma single_queue: "distinct q \<Longrightarrow> x \<in> set q \<Longrightarrow> length q = Suc 0 \<longleftrightarrow> q = [x]"
  by (cases q) auto

lemma inflight:
  assumes "dio_inv w" and "x \<in> set (queue w)"
  shows "nfin w = 0" and "x \<notin> set (ended w)" and "\<not> at_first (pc w)"
    and "multi_bio (dio w) \<Longrightarrow> dio_ref (dio w) = 1 \<longleftrightarrow> queue w = [x] \<and> \<not> submitting (pc w)"
proof -
  have d: "distinct (queue w)" using assms(1) by (simp add: dio_inv_def)
  show "x \<notin> set (ended w)" using assms by (simp add: dio_inv_def)
  obtain y ys where "queue w = y # ys" using assms(2) by (cases "queue w") auto
  then show "nfin w = 0"
    using assms(1)
    by (cases "pc w")
       (auto simp add: dio_inv_def in_loop_def after_loop_def aborted_def split: if_splits)
  show "\<not> at_first (pc w)"
    using assms by (cases "pc w") (auto simp add: dio_inv_def in_loop_def)
  show "dio_ref (dio w) = 1 \<longleftrightarrow> queue w = [x] \<and> \<not> submitting (pc w)" if m: "multi_bio (dio w)"
  proof (cases "pc w")
    case (PC_loop b pos)
    then have "dio_ref (dio w) = 1 + int (length (queue w))"
      using assms(1) m by (simp add: dio_inv_def in_loop_def)
    then show ?thesis using PC_loop assms(2) by (cases "queue w") auto
  next
    case (PC_wait r)
    then have "dio_ref (dio w) = int (length (queue w))"
      using assms(1) m by (simp add: dio_inv_def after_loop_def)
    then show ?thesis using PC_wait single_queue [OF d assms(2)] by auto
  next
    case (PC_return r)
    then have "after_loop w" using assms m by (auto simp add: dio_inv_def aborted_def)
    then have "dio_ref (dio w) = int (length (queue w))"
      using m by (simp add: after_loop_def)
    then show ?thesis using PC_return single_queue [OF d assms(2)] by auto
  qed (use assms in \<open>simp_all add: dio_inv_def\<close>)
qed

lemma waiter_step:
  assumes "dio_inv w" and "waiter_inv w"
  shows "waiter_inv (step a w)"
  using assms(1)
proof (cases rule: step_cases [where a = a])
  case idle
  then show ?thesis using assms(2) by simp
next
  case (complete x s)
  note f = inflight [OF assms(1) complete(2)]
  have s: "is_sync (dio w) = ki_sync (iocb w)" using assms(1) by (simp add: dio_inv_def)
  have o: "ki_sync (iocb (step a w)) = ki_sync (iocb w)"
    "nfin (step a w) = (if \<not> multi_bio (dio w) \<or> dio_ref (dio w) = 1 then 1 else 0)"
    "dio_ptr (dio (step a w)) =
       (if ki_sync (iocb w) \<and> (\<not> multi_bio (dio w) \<or> dio_ref (dio w) = 1) then NULL
        else dio_ptr (dio w))"
    unfolding complete(4) using f(1) s by (auto simp add: end_io_ptr)
  show ?thesis
    using assms(2) f(1) unfolding waiter_inv_def o by auto
next
  case (fail b pos)
  have s: "is_sync (dio w) = ki_sync (iocb w)" using assms(1) by (simp add: dio_inv_def)
  have n: "nfin w = 0" using fail(3) by (simp add: in_loop_def)
  have o: "ki_sync (iocb (step a w)) = ki_sync (iocb w)"
    "nfin (step a w) = (if \<not> multi_bio (dio w) \<or> dio_ref (dio w) = 1 then 1 else 0)"
    "dio_ptr (dio (step a w)) =
       (if ki_sync (iocb w) \<and> (\<not> multi_bio (dio w) \<or> dio_ref (dio w) = 1) then NULL
        else dio_ptr (dio w))"
    unfolding fail(5) using n s by (auto simp add: end_io_ptr)
  show ?thesis
    using assms(2) n unfolding waiter_inv_def o by auto
next
  case (abort pos)
  show ?thesis using assms(2) unfolding abort(7) by (simp add: waiter_inv_def)
next
  case (last b pos)
  show ?thesis using assms(2) unfolding last(5) by (simp add: waiter_inv_def)
next
  case (more b pos)
  show ?thesis using assms(2) unfolding more(6) by (simp add: waiter_inv_def)
next
  case (woken r)
  show ?thesis using assms(2) unfolding woken(5) by (simp add: waiter_inv_def)
qed

lemma waiter_run: "dio_inv w \<Longrightarrow> waiter_inv w \<Longrightarrow> waiter_inv (run as w)"
  by (induction as arbitrary: w) (simp_all add: waiter_step inv_step)

lemma waiter_start: "\<not> misaligned w \<Longrightarrow> waiter_inv (uu_blkdev_direct_IO n (fresh w))"
  by (simp add: waiter_inv_def nfin_def)

subsection \<open>A page failure in the loop\<close>

lemma err_step:
  assumes "dio_inv w" and "err_inv w"
  shows "err_inv (step a w)"
  using assms(1)
proof (cases rule: step_cases [where a = a])
  case idle
  then show ?thesis using assms(2) by simp
next
  case (complete x s)
  let ?v = "emit (EvEndio x (if s \<noteq> BLK_STS_OK then s else bi_status (bios w x)))
     ((if s \<noteq> BLK_STS_OK then upd_bio x (\<lambda>b. b\<lparr>bi_status := s\<rparr>) w else w)
        \<lparr>queue := removeAll x (queue w)\<rparr>)"
  have v: "bi_status (bios ?v 0) \<noteq> BLK_STS_OK" "reports (trace ?v) = reports (trace w)"
    using assms(2) by (simp_all add: err_inv_def)
  have r: "\<forall>r\<in>set (reports (trace (step a w))). r < 0"
    using assms(2) end_io_reports_error [of _ x ?v, OF _ v(1)]
    unfolding complete(4) v err_inv_def by blast
  have o: "bi_status (bios (step a w) 0) \<noteq> BLK_STS_OK" "pc (step a w) = pc w"
    "ended (step a w) \<noteq> []"
    unfolding complete(4) using v(1) by (simp_all add: end_io_bi_status)
  show ?thesis
    using assms(2) r o unfolding err_inv_def by simp
next
  case (fail b pos)
  then show ?thesis using assms(2) by (simp add: err_inv_def)
next
  case (abort pos)
  then show ?thesis using assms(2) by (simp add: err_inv_def)
next
  case (last b pos)
  then show ?thesis using assms(2) by (simp add: err_inv_def)
next
  case (more b pos)
  then show ?thesis using assms(2) by (simp add: err_inv_def)
next
  case (woken r)
  then show ?thesis using assms(2) by (simp add: err_inv_def)
qed

lemma err_run: "dio_inv w \<Longrightarrow> err_inv w \<Longrightarrow> err_inv (run as w)"
  by (induction as arbitrary: w) (simp_all add: err_step inv_step)

lemma fail_step:
  assumes "dio_inv w" and "pc w = PC_loop b pos" and "pages_for b w = []"
  shows "err_inv (step Run w)"
    and "outcomes (trace (step Run w)) = (b, BLK_STS_IOERR) # outcomes (trace w)"
    and "queue (step Run w) = queue w"
    and "submitted (trace (step Run w)) = submitted (trace w)"
    and "\<not> submitting (pc (step Run w))"
    and "nfin (step Run w) = (if queue w = [] then 1 else 0)"
proof -
  let ?v = "emit (EvEndio b BLK_STS_IOERR)
     (upd_bio b (\<lambda>x. x\<lparr>bi_status := BLK_STS_IOERR\<rparr>) (loop_prepare b pos w))"
  have eq: "step Run w = loop_break (- EFAULT) (blkdev_bio_end_io b ?v)"
    using assms(2,3) by (simp add: thread_step_def loop_fail_eq loop_fail_dio)
  have il: "in_loop b w" using assms(1,2) by (simp add: dio_inv_def)
  then have nf: "reports (trace w) = []" by (simp add: in_loop_def no_reports)
  have s0: "bi_status (bios (end_io_status b ?v) 0) \<noteq> BLK_STS_OK"
    by simp
  have r: "\<forall>r\<in>set (reports (trace (step Run w))). r < 0"
    unfolding eq using nf s0 blk_status_to_errno_neg [OF s0]
    by (simp add: end_io_reports)
  have o: "bi_status (bios (step Run w) 0) \<noteq> BLK_STS_OK" "ended (step Run w) \<noteq> []"
    "pc (step Run w) = (if \<not> ki_sync (iocb w) then PC_return (- EIOCBQUEUED) else PC_wait (- EFAULT))"
    unfolding eq by (simp_all add: end_io_bi_status)
  show "err_inv (step Run w)"
    using r o unfolding err_inv_def by simp
  show "outcomes (trace (step Run w)) = (b, BLK_STS_IOERR) # outcomes (trace w)"
    and "queue (step Run w) = queue w"
    and "submitted (trace (step Run w)) = submitted (trace w)"
    unfolding eq by simp_all
  show "\<not> submitting (pc (step Run w))"
    unfolding o by simp
  have "nfin (step Run w) =
      nfin w + (if \<not> multi_bio (dio w) \<or> dio_ref (dio w) = 1 then 1 else 0)"
    unfolding eq by simp
  moreover have "nfin w = 0" using il by (simp add: in_loop_def)
  moreover have "\<not> multi_bio (dio w) \<or> dio_ref (dio w) = 1 \<longleftrightarrow> queue w = []"
    using il by (auto simp add: in_loop_def)
  ultimately show "nfin (step Run w) = (if queue w = [] then 1 else 0)"
    by simp
qed

lemma err_quiescent:
  assumes "dio_inv w" and "err_inv w" and "queue w = []"
  shows "nfin w = 1"
proof -
  have "after_loop w"
    using assms(1,2)
    by (cases "pc w") (auto simp add: dio_inv_def err_inv_def aborted_def)
  then show ?thesis
    using assms(3) by (auto simp add: after_loop_def split: if_splits)
qed

lemma err_returns:
  assumes "dio_inv w" and "err_inv w" and "waiter_inv w" and "ki_sync (iocb w)"
    and "queue w = []"
  shows "\<exists>r. pc (step Run w) = PC_return r \<and> r < 0"
proof -
  have "nfin w = 1" using err_quiescent [OF assms(1,2,5)] .
  then have p: "dio_ptr (dio w) = NULL" using assms(3,4) by (simp add: waiter_inv_def)
  show ?thesis
  proof (cases "pc w")
    case (PC_wait r)
    then have "r < 0" using assms(2) by (simp add: err_inv_def)
    then show ?thesis
      using PC_wait p by (simp add: thread_step_def uu_blkdev_direct_IO_wait_def Let_def)
  next
    case (PC_return r)
    then have "r < 0" using assms(2) by (simp add: err_inv_def)
    then show ?thesis using PC_return by (simp add: thread_step_def)
  qed (use assms(2) in \<open>simp_all add: err_inv_def\<close>)
qed

text \<open>
  C8: when the pages of the current bio cannot be acquired, in any pass through the
  loop, that bio is completed through the normal handler with \<open>BLK_STS_IOERR\<close>; it is
  not handed to the device, the bios already submitted stay in flight, and the loop is
  left. The request is finalized at once when nothing is in flight and otherwise by the
  last sibling's completion; from then on the sticky status is an error, every result
  passed to \<^verbatim>\<open>ki_complete\<close> and every value returned is negative, and the request is
  finalized exactly once when the last sibling has completed. The caller of a
  synchronous request does return: once nothing is in flight, the next step of the
  submitting thread leaves the wait loop and returns a negative value.
\<close>

theorem page_failure_fails_in_place:
  assumes "\<not> misaligned w"
    and "pc (run as (uu_blkdev_direct_IO n (fresh w))) = PC_loop b pos"
    and "pages_for b (run as (uu_blkdev_direct_IO n (fresh w))) = []"
  shows "outcomes (trace (step Run (run as (uu_blkdev_direct_IO n (fresh w))))) =
           (b, BLK_STS_IOERR) # outcomes (trace (run as (uu_blkdev_direct_IO n (fresh w)))) \<and>
    submitted (trace (step Run (run as (uu_blkdev_direct_IO n (fresh w))))) =
      submitted (trace (run as (uu_blkdev_direct_IO n (fresh w)))) \<and>
    queue (step Run (run as (uu_blkdev_direct_IO n (fresh w)))) =
      queue (run as (uu_blkdev_direct_IO n (fresh w))) \<and>
    \<not> submitting (pc (step Run (run as (uu_blkdev_direct_IO n (fresh w))))) \<and>
    nfin (step Run (run as (uu_blkdev_direct_IO n (fresh w)))) =
      (if queue (run as (uu_blkdev_direct_IO n (fresh w))) = [] then 1 else 0) \<and>
    bi_status (bios (run bs (step Run (run as (uu_blkdev_direct_IO n (fresh w))))) 0)
      \<noteq> BLK_STS_OK \<and>
    (\<forall>r\<in>set (reports (trace (run bs (step Run (run as (uu_blkdev_direct_IO n (fresh w))))))).
        r < 0) \<and>
    (\<forall>r. pc (run bs (step Run (run as (uu_blkdev_direct_IO n (fresh w))))) = PC_return r \<longrightarrow>
        r < 0) \<and>
    (queue (run bs (step Run (run as (uu_blkdev_direct_IO n (fresh w))))) = [] \<longrightarrow>
        nfin (run bs (step Run (run as (uu_blkdev_direct_IO n (fresh w))))) = 1) \<and>
    (\<not> ki_sync (iocb w) \<longrightarrow>
        pc (step Run (run as (uu_blkdev_direct_IO n (fresh w)))) = PC_return (- EIOCBQUEUED)) \<and>
    (ki_sync (iocb w) \<and>
     queue (run bs (step Run (run as (uu_blkdev_direct_IO n (fresh w))))) = [] \<longrightarrow>
        (\<exists>r. pc (step Run (run bs (step Run (run as (uu_blkdev_direct_IO n (fresh w)))))) =
               PC_return r \<and> r < 0))"
proof -
  let ?w0 = "uu_blkdev_direct_IO n (fresh w)"
  let ?w1 = "run as ?w0"
  let ?w3 = "run bs (step Run ?w1)"
  have i0: "dio_inv ?w0" using assms(1) by (rule inv_start)
  have i: "dio_inv ?w1" by (rule inv_run, rule i0)
  have i2: "dio_inv (step Run ?w1)" by (rule inv_step, rule i)
  note f = fail_step [OF i assms(2,3)]
  have j: "dio_inv ?w3" by (rule inv_run, rule i2)
  have e: "err_inv ?w3" by (rule err_run, rule i2, rule f(1))
  have v: "waiter_inv ?w3"
    by (rule waiter_run, rule i2, rule waiter_step, rule i, rule waiter_run, rule i0,
        rule waiter_start, rule assms(1))
  have k1: "ki_sync (iocb ?w1) = ki_sync (iocb w)"
    using sync_run [OF i0, of as] assms(1) by simp
  have k: "ki_sync (iocb ?w3) = ki_sync (iocb w)"
    using sync_run [OF i2, of bs] sync_step [OF i, of Run] k1 by simp
  have a: "pc (step Run ?w1) = PC_return (- EIOCBQUEUED)" if "\<not> ki_sync (iocb w)"
  proof -
    let ?v = "emit (EvEndio b BLK_STS_IOERR)
       (upd_bio b (\<lambda>x. x\<lparr>bi_status := BLK_STS_IOERR\<rparr>) (loop_prepare b pos ?w1))"
    have "step Run ?w1 = loop_break (- EFAULT) (blkdev_bio_end_io b ?v)"
      using assms(2,3) by (simp add: thread_step_def loop_fail_eq loop_fail_dio)
    then show ?thesis using that k1 by simp
  qed
  have s: "\<exists>r. pc (step Run ?w3) = PC_return r \<and> r < 0"
    if "ki_sync (iocb w)" and "queue ?w3 = []"
    using err_returns [OF j e v _ that(2)] that(1) k by simp
  have "queue ?w3 = [] \<longrightarrow> nfin ?w3 = 1"
    using err_quiescent [OF j e] by simp
  moreover have "bi_status (bios ?w3 0) \<noteq> BLK_STS_OK"
    and "\<forall>r\<in>set (reports (trace ?w3)). r < 0"
    and "\<forall>r. pc ?w3 = PC_return r \<longrightarrow> r < 0"
    using e by (auto simp add: err_inv_def)
  ultimately show ?thesis
    using f(2-6) a s by simp
qed

theorem page_failure_fails_in_place_witness:
  "\<not> misaligned (example_world 1 (example_iocb 0 False False)
      (example_iter READ [(1024, True), (512, False)])) \<and>
   pc (run [Run] (uu_blkdev_direct_IO 1 (fresh (example_world 1 (example_iocb 0 False False)
      (example_iter READ [(1024, True), (512, False)]))))) = PC_loop 1 1024 \<and>
   pages_for 1 (run [Run] (uu_blkdev_direct_IO 1 (fresh (example_world 1
      (example_iocb 0 False False) (example_iter READ [(1024, True), (512, False)]))))) = [] \<and>
   outcomes (trace (step Run (run [Run] (uu_blkdev_direct_IO 1 (fresh (example_world 1
      (example_iocb 0 False False) (example_iter READ [(1024, True), (512, False)]))))))) =
     [(1, BLK_STS_IOERR)] \<and>
   queue (step Run (run [Run] (uu_blkdev_direct_IO 1 (fresh (example_world 1
      (example_iocb 0 False False) (example_iter READ [(1024, True), (512, False)])))))) = [0] \<and>
   reports (trace (run [Complete 0 BLK_STS_OK] (step Run (run [Run] (uu_blkdev_direct_IO 1
      (fresh (example_world 1 (example_iocb 0 False False)
         (example_iter READ [(1024, True), (512, False)])))))))) = [- EIO] \<and>
   nfin (run [Complete 0 BLK_STS_OK] (step Run (run [Run] (uu_blkdev_direct_IO 1
      (fresh (example_world 1 (example_iocb 0 False False)
         (example_iter READ [(1024, True), (512, False)]))))))) = 1 \<and>
   \<not> misaligned (example_world 1 (example_iocb 0 True False)
      (example_iter READ [(1024, True), (512, False)])) \<and>
   pc (run [Run] (uu_blkdev_direct_IO 1 (fresh (example_world 1 (example_iocb 0 True False)
      (example_iter READ [(1024, True), (512, False)]))))) = PC_loop 1 1024 \<and>
   pages_for 1 (run [Run] (uu_blkdev_direct_IO 1 (fresh (example_world 1
      (example_iocb 0 True False) (example_iter READ [(1024, True), (512, False)]))))) = [] \<and>
   queue (run [Complete 0 BLK_STS_OK] (step Run (run [Run] (uu_blkdev_direct_IO 1
      (fresh (example_world 1 (example_iocb 0 True False)
         (example_iter READ [(1024, True), (512, False)]))))))) = [] \<and>
   pc (step Run (run [Complete 0 BLK_STS_OK] (step Run (run [Run] (uu_blkdev_direct_IO 1
      (fresh (example_world 1 (example_iocb 0 True False)
         (example_iter READ [(1024, True), (512, False)])))))))) = PC_return (- EFAULT)"
  using page_failure_fails_in_place
    [of "example_world 1 (example_iocb 0 False False)
           (example_iter READ [(1024, True), (512, False)])" "[Run]" 1 1 1024
        "[Complete 0 BLK_STS_OK]"]
    page_failure_fails_in_place
    [of "example_world 1 (example_iocb 0 True False)
           (example_iter READ [(1024, True), (512, False)])" "[Run]" 1 1 1024
        "[Complete 0 BLK_STS_OK]"]
  by (simp add: example_defs eval_defs)

subsection \<open>Completion handlers that overlap the thread\<close>

lemma handler_split:
  "blkdev_bio_end_io b w = end_io_release (fst (end_io_head b w)) b (snd (end_io_head b w))"
  by (simp add: blkdev_bio_end_io_def end_io_head_def Let_def case_prod_beta)

lemma head_obs [simp]:
  "fst (end_io_head b w) = should_dirty (dio w)"
  "queue (snd (end_io_head b w)) = queue w"
  "pc (snd (end_io_head b w)) = pc w"
  "nbios (snd (end_io_head b w)) = nbios w"
  "ki_sync (iocb (snd (end_io_head b w))) = ki_sync (iocb w)"
  "multi_bio (dio (snd (end_io_head b w))) = multi_bio (dio w)"
  "ended (snd (end_io_head b w)) = ended w"
  "outcomes (trace (snd (end_io_head b w))) = outcomes (trace w)"
  "nfin (snd (end_io_head b w)) =
     nfin w + (if \<not> multi_bio (dio w) \<or> dio_ref (dio w) = 1 then 1 else 0)"
  by (simp_all add: end_io_head_def Let_def case_prod_beta ended_def nfin_def)

lemma head_ref:
  assumes "BIO_REFFED (bios w 0)"
  shows "BIO_REFFED (bios (snd (end_io_head b w)) 0)"
    and "bi_cnt (bios (snd (end_io_head b w)) 0) =
      bi_cnt (bios w 0)
      - (if \<not> is_sync (dio w) \<and> multi_bio (dio w) \<and> dio_ref (dio w) = 1 then 1 else 0)"
    and "bi_freed (bios (snd (end_io_head b w)) 0) =
      bi_freed (bios w 0)
      + (if \<not> is_sync (dio w) \<and> multi_bio (dio w) \<and> dio_ref (dio w) = 1 \<and>
            bi_cnt (bios w 0) = 1 then 1 else 0)"
  using assms
  by (simp_all add: end_io_head_def Let_def case_prod_beta put_def)

lemma release_obs [simp]:
  "nfin (end_io_release sd b w) = nfin w"
  "ended (end_io_release sd b w) = ended w"
  "outcomes (trace (end_io_release sd b w)) = outcomes (trace w)"
  by (simp_all add: nfin_def ended_def)

lemma release_end_io [simp]:
  "bi_end_io (bios (end_io_release sd b w) x) = bi_end_io (bios w x)"
  by simp

lemma release_dio_inv: "dio_inv (end_io_release sd b w) = dio_inv w"
  by (cases "pc w")
     (simp_all add: dio_inv_def in_loop_def after_loop_def aborted_def
        del: end_io_release_simps(8))

lemma release_waiter_inv: "waiter_inv (end_io_release sd b w) = waiter_inv w"
  by (simp add: waiter_inv_def)

lemma arrive_eq:
  assumes "dio_inv w" and "x \<in> set (queue w)"
  shows "fine_step (Arrive x s) (w, hs) =
    (snd (end_io_head x
       (emit (EvEndio x (if s \<noteq> BLK_STS_OK then s else bi_status (bios w x)))
          ((if s \<noteq> BLK_STS_OK then upd_bio x (\<lambda>b. b\<lparr>bi_status := s\<rparr>) w else w)
             \<lparr>queue := removeAll x (queue w)\<rparr>))),
     hs @ [(x, should_dirty (dio w))])"
proof -
  have "bi_end_io (bios w x) = BLKDEV_BIO_END_IO"
    using assms by (simp add: dio_inv_def)
  then show ?thesis
    using assms(2) by (simp add: Let_def case_prod_beta)
qed

lemma arrive_idle:
  assumes "dio_inv w" and "x \<notin> set (queue w)"
  shows "fine_step (Arrive x s) (w, hs) = (w, hs)"
  using assms(2) by (simp add: device_complete_def)

lemma head_inv:
  assumes "dio_inv w" and "waiter_inv w" and "x \<in> set (queue w)"
  shows "dio_inv (snd (end_io_head x
       (emit (EvEndio x (if s \<noteq> BLK_STS_OK then s else bi_status (bios w x)))
          ((if s \<noteq> BLK_STS_OK then upd_bio x (\<lambda>b. b\<lparr>bi_status := s\<rparr>) w else w)
             \<lparr>queue := removeAll x (queue w)\<rparr>))))"
    and "waiter_inv (snd (end_io_head x
       (emit (EvEndio x (if s \<noteq> BLK_STS_OK then s else bi_status (bios w x)))
          ((if s \<noteq> BLK_STS_OK then upd_bio x (\<lambda>b. b\<lparr>bi_status := s\<rparr>) w else w)
             \<lparr>queue := removeAll x (queue w)\<rparr>))))"
proof -
  let ?v = "emit (EvEndio x (if s \<noteq> BLK_STS_OK then s else bi_status (bios w x)))
          ((if s \<noteq> BLK_STS_OK then upd_bio x (\<lambda>b. b\<lparr>bi_status := s\<rparr>) w else w)
             \<lparr>queue := removeAll x (queue w)\<rparr>)"
  have e: "bi_end_io (bios w x) = BLKDEV_BIO_END_IO"
    using assms(1,3) by (simp add: dio_inv_def)
  have eq: "step (Complete x s) w =
      end_io_release (fst (end_io_head x ?v)) x (snd (end_io_head x ?v))"
    using device_complete_dio [OF assms(3) e, of s] handler_split [of x ?v] by simp
  have "dio_inv (step (Complete x s) w)" by (rule inv_step, rule assms(1))
  then show "dio_inv (snd (end_io_head x ?v))"
    unfolding eq release_dio_inv .
  have "waiter_inv (step (Complete x s) w)" by (rule waiter_step, rule assms(1), rule assms(2))
  then show "waiter_inv (snd (end_io_head x ?v))"
    unfolding eq release_waiter_inv .
qed

lemma map_of_filter_other:
  "map_of (filter (\<lambda>h. fst h \<noteq> b) hs) k = (if k = b then None else map_of hs k)"
  by (induction hs) auto

subsection \<open>The references to the first bio\<close>

lemma end_io_ref:
  assumes "BIO_REFFED (bios w 0)"
  shows "BIO_REFFED (bios (blkdev_bio_end_io b w) 0)"
    and "bi_cnt (bios (blkdev_bio_end_io b w) 0) =
      bi_cnt (bios w 0)
      - (if \<not> is_sync (dio w) \<and> multi_bio (dio w) \<and> dio_ref (dio w) = 1 then 1 else 0)
      - (if b = 0 then 1 else 0)"
    and "bi_freed (bios (blkdev_bio_end_io b w) 0) =
      bi_freed (bios w 0)
      + (if \<not> is_sync (dio w) \<and> multi_bio (dio w) \<and> dio_ref (dio w) = 1 \<and>
            bi_cnt (bios w 0) = 1 then 1 else 0)
      + (if b = 0 \<and> bi_cnt (bios w 0) =
            (if \<not> is_sync (dio w) \<and> multi_bio (dio w) \<and> dio_ref (dio w) = 1 then 2 else 1)
         then 1 else 0)"
  using assms
  by (simp_all add: blkdev_bio_end_io_def Let_def case_prod_beta put_def)

lemma first_nothing_ended: "dio_inv w \<Longrightarrow> at_first (pc w) \<Longrightarrow> ended w = []"
  by (cases "pc w") (simp_all add: dio_inv_def in_loop_def)

lemma ref_start: "\<not> misaligned w \<Longrightarrow> ref_inv (uu_blkdev_direct_IO n (fresh w)) []"
  by (simp add: ref_inv_def new_bio_def)

lemma ref_thread:
  assumes "dio_inv w" and "waiter_inv w" and "ref_inv w hs"
  shows "ref_inv (thread_step w) hs"
  using assms(1)
proof (cases rule: step_cases [where a = Run])
  case idle
  then show ?thesis using assms(3) by simp
next
  case (complete x s)
  then show ?thesis by simp
next
  case (fail b pos)
  let ?v = "emit (EvEndio b BLK_STS_IOERR)
     (upd_bio b (\<lambda>x. x\<lparr>bi_status := BLK_STS_IOERR\<rparr>) (loop_prepare b pos w))"
  have v: "BIO_REFFED (bios ?v 0) = BIO_REFFED (bios w 0)"
    "bi_cnt (bios ?v 0) = bi_cnt (bios w 0)" "bi_freed (bios ?v 0) = bi_freed (bios w 0)"
    by simp_all
  have s: "is_sync (dio w) = ki_sync (iocb w)" using assms(1) by (simp add: dio_inv_def)
  have il: "nfin w = 0" "multi_bio (dio w) \<longleftrightarrow> b \<noteq> 0"
    "multi_bio (dio w) \<Longrightarrow> dio_ref (dio w) = 1 \<longleftrightarrow> queue w = []"
    using fail(3) by (auto simp add: in_loop_def)
  have o: "ki_sync (iocb (thread_step w)) = ki_sync (iocb w)"
    "pc (thread_step w) = (if \<not> ki_sync (iocb w) then PC_return (- EIOCBQUEUED) else PC_wait (- EFAULT))"
    "multi_bio (dio (thread_step w)) = multi_bio (dio w)"
    "nfin (thread_step w) = (if \<not> multi_bio (dio w) \<or> dio_ref (dio w) = 1 then 1 else 0)"
    "queue (thread_step w) = queue w" "ended (thread_step w) = b # ended w"
    unfolding fail(5) [unfolded step.simps] using il(1) s by auto
  have p1: "\<forall>h\<in>set hs. fst h \<in> set (ended (thread_step w))"
    using assms(3) unfolding o by (simp add: ref_inv_def)
  have p2: "\<not> at_first (pc (thread_step w))" unfolding o by simp
  show ?thesis
  proof (cases "multi_bio (dio w)")
    case False
    then show ?thesis
      unfolding ref_inv_def using p1 p2 o(3) by simp
  next
    case True
    then have r: "BIO_REFFED (bios ?v 0)" using assms(3) by (simp add: ref_inv_def)
    have nr: "\<not> released w" using il(1) fail(2) by (simp add: released_def)
    have b: "bi_cnt (bios w 0) = (if handled w hs then 0 else 1) + 1"
      "bi_freed (bios w 0) = 0" "0 \<in> set (queue w) \<or> 0 \<in> set (ended w)"
      using assms(3) True nr by (simp_all add: ref_inv_def)
    have rel: "released (thread_step w) \<longleftrightarrow> \<not> ki_sync (iocb w) \<and> dio_ref (dio w) = 1"
      using True by (auto simp add: released_def o)
    have b0: "b \<noteq> 0" using il(2) True by simp
    have hd: "handled (thread_step w) hs = handled w hs"
      using b0 by (auto simp add: handled_def o)
    have c: "BIO_REFFED (bios (thread_step w) 0)"
      "bi_cnt (bios (thread_step w) 0) = bi_cnt (bios w 0)
        - (if \<not> ki_sync (iocb w) \<and> dio_ref (dio w) = 1 then 1 else 0)"
      "bi_freed (bios (thread_step w) 0) =
        (if \<not> ki_sync (iocb w) \<and> dio_ref (dio w) = 1 \<and> bi_cnt (bios w 0) = 1 then 1 else 0)"
    proof -
      have d: "dio ?v = dio w" by simp
      have lb: "bios (loop_break r' u) = bios u" for r' u by simp
      show "BIO_REFFED (bios (thread_step w) 0)"
        unfolding fail(5) [unfolded step.simps] lb by (rule end_io_ref(1) [OF r])
      show "bi_cnt (bios (thread_step w) 0) = bi_cnt (bios w 0)
        - (if \<not> ki_sync (iocb w) \<and> dio_ref (dio w) = 1 then 1 else 0)"
        unfolding fail(5) [unfolded step.simps] lb end_io_ref(2) [OF r] v d using True s b0 by simp
      show "bi_freed (bios (thread_step w) 0) =
        (if \<not> ki_sync (iocb w) \<and> dio_ref (dio w) = 1 \<and> bi_cnt (bios w 0) = 1 then 1 else 0)"
        unfolding fail(5) [unfolded step.simps] lb end_io_ref(3) [OF r] v d using True s b0 b(2) by simp
    qed
    have p3: "0 \<in> set (queue (thread_step w)) \<or> 0 \<in> set (ended (thread_step w))"
      using b(3) unfolding o by auto
    have p4: "released (thread_step w) \<longrightarrow> nfin (thread_step w) = 1"
      using True unfolding rel o by auto
    have p5: "bi_cnt (bios (thread_step w) 0) =
        (if handled (thread_step w) hs then 0 else 1) + (if released (thread_step w) then 0 else 1)"
      unfolding c b rel hd by auto
    have p6: "bi_freed (bios (thread_step w) 0) =
        (if handled (thread_step w) hs \<and> released (thread_step w) then 1 else 0)"
      unfolding c b rel hd by auto
    show ?thesis
      unfolding ref_inv_def using p1 p2 p3 p4 p5 p6 c(1) by simp
  qed
next
  case (abort pos)
  have "\<not> multi_bio (dio w)" using abort(3) by (simp add: in_loop_def)
  then show ?thesis
    using assms(3) unfolding abort(7) [unfolded step.simps] by (simp add: ref_inv_def)
next
  case (last b pos)
  have il: "nfin w = 0" "multi_bio (dio w) \<longleftrightarrow> b \<noteq> 0"
    using last(3) by (auto simp add: in_loop_def)
  have o: "ki_sync (iocb (thread_step w)) = ki_sync (iocb w)"
    "pc (thread_step w) = (if \<not> ki_sync (iocb w) then PC_return (- EIOCBQUEUED) else PC_wait 0)"
    "multi_bio (dio (thread_step w)) = multi_bio (dio w)"
    "nfin (thread_step w) = nfin w"
    "queue (thread_step w) = queue w @ [b]" "ended (thread_step w) = ended w"
    unfolding last(5) [unfolded step.simps] by simp_all
  have c: "multi_bio (dio w) \<Longrightarrow> BIO_REFFED (bios (thread_step w) 0) = BIO_REFFED (bios w 0)"
    "multi_bio (dio w) \<Longrightarrow> bi_cnt (bios (thread_step w) 0) = bi_cnt (bios w 0)"
    "multi_bio (dio w) \<Longrightarrow> bi_freed (bios (thread_step w) 0) = bi_freed (bios w 0)"
    unfolding last(5) [unfolded step.simps] using il(2) by simp_all
  have nr: "\<not> released w" "\<not> released (thread_step w)"
    using il(1) last(2) by (simp_all add: released_def o)
  have hd: "handled (thread_step w) hs = handled w hs" by (simp add: handled_def o)
  show ?thesis
    using assms(3) nr c unfolding ref_inv_def o hd by auto
next
  case (more b pos)
  have il: "nfin w = 0" "multi_bio (dio w) \<longleftrightarrow> b \<noteq> 0" "nbios w = b + 1"
    "b = 0 \<Longrightarrow> ended w = []"
    using more(3) by (auto simp add: in_loop_def)
  have o: "ki_sync (iocb (thread_step w)) = ki_sync (iocb w)"
    "at_first (pc (thread_step w)) = False" "returned (pc (thread_step w)) = False"
    "multi_bio (dio (thread_step w)) = True"
    "nfin (thread_step w) = nfin w"
    "queue (thread_step w) = queue w @ [b]" "ended (thread_step w) = ended w"
    unfolding more(6) [unfolded step.simps] using il(3) by simp_all
  have c: "BIO_REFFED (bios (thread_step w) 0) = (if b = 0 then True else BIO_REFFED (bios w 0))"
    "bi_cnt (bios (thread_step w) 0) =
       (if b = 0 \<and> \<not> ki_sync (iocb w) then bi_cnt (bios w 0) + 1 else bi_cnt (bios w 0))"
    "bi_freed (bios (thread_step w) 0) = bi_freed (bios w 0)"
  proof -
    show "BIO_REFFED (bios (thread_step w) 0) = (if b = 0 then True else BIO_REFFED (bios w 0))"
      unfolding more(6) [unfolded step.simps] using il(2,3) assms(3) more(2) by (auto simp add: ref_inv_def)
    show "bi_cnt (bios (thread_step w) 0) =
       (if b = 0 \<and> \<not> ki_sync (iocb w) then bi_cnt (bios w 0) + 1 else bi_cnt (bios w 0))"
      unfolding more(6) [unfolded step.simps] using il(2,3) by auto
    show "bi_freed (bios (thread_step w) 0) = bi_freed (bios w 0)"
      unfolding more(6) [unfolded step.simps] using il(2,3) by auto
  qed
  have nr: "\<not> released w" "\<not> released (thread_step w)"
    using il(1) more(2) by (simp_all add: released_def o)
  have hd: "handled (thread_step w) hs = handled w hs" by (simp add: handled_def o)
  show ?thesis
  proof (cases "b = 0")
    case True
    then have "bi_cnt (bios w 0) = (if ki_sync (iocb w) then 2 else 1)" "bi_freed (bios w 0) = 0"
      using assms(3) more(2) by (simp_all add: ref_inv_def)
    moreover have "\<not> handled w hs" using True il(4) by (simp add: handled_def)
    ultimately show ?thesis
      using assms(3) nr True unfolding ref_inv_def o c hd by auto
  next
    case False
    then show ?thesis
      using assms(3) nr il(2) unfolding ref_inv_def o c hd by auto
  qed
next
  case (woken r)
  have k: "ki_sync (iocb w)" using assms(1) woken(2) by (simp add: dio_inv_def)
  then have n: "nfin w = 1" using assms(2) woken(4) by (simp add: waiter_inv_def)
  have o: "ki_sync (iocb (thread_step w)) = True"
    "at_first (pc (thread_step w)) = False" "returned (pc (thread_step w)) = True"
    "multi_bio (dio (thread_step w)) = multi_bio (dio w)"
    "nfin (thread_step w) = 1"
    "queue (thread_step w) = queue w" "ended (thread_step w) = ended w"
    unfolding woken(5) [unfolded step.simps] using k n by simp_all
  have p1: "\<forall>h\<in>set hs. fst h \<in> set (ended w)"
    using assms(3) by (simp add: ref_inv_def)
  show ?thesis
  proof (cases "multi_bio (dio w)")
    case False
    then show ?thesis unfolding ref_inv_def o using p1 by simp
  next
    case True
    have nr: "\<not> released w" using k woken(2) by (simp add: released_def)
    have b: "bi_cnt (bios w 0) = (if handled w hs then 0 else 1) + 1"
      "bi_freed (bios w 0) = 0" "0 \<in> set (queue w) \<or> 0 \<in> set (ended w)"
      "BIO_REFFED (bios w 0)"
      using assms(3) True nr by (simp_all add: ref_inv_def)
    have hd: "handled (thread_step w) hs = handled w hs" by (simp add: handled_def o)
    have c: "BIO_REFFED (bios (thread_step w) 0)"
      "bi_cnt (bios (thread_step w) 0) = (if handled w hs then 0 else 1)"
      "bi_freed (bios (thread_step w) 0) = (if handled w hs then 1 else 0)"
      unfolding woken(5) [unfolded step.simps] using b by (simp_all add: put_def)
    have rel: "released (thread_step w)" by (simp add: released_def o)
    show ?thesis
      unfolding ref_inv_def o hd using c rel b(3) True p1 by simp
  qed
qed

lemma ref_arrive:
  assumes "dio_inv w" and "ref_inv w hs" and "x \<in> set (queue w)"
  shows "ref_inv (snd (end_io_head x
       (emit (EvEndio x (if s \<noteq> BLK_STS_OK then s else bi_status (bios w x)))
          ((if s \<noteq> BLK_STS_OK then upd_bio x (\<lambda>b. b\<lparr>bi_status := s\<rparr>) w else w)
             \<lparr>queue := removeAll x (queue w)\<rparr>)))) (hs @ [(x, sd)])"
proof -
  let ?v = "(emit (EvEndio x (if s \<noteq> BLK_STS_OK then s else bi_status (bios w x)))
          ((if s \<noteq> BLK_STS_OK then upd_bio x (\<lambda>b. b\<lparr>bi_status := s\<rparr>) w else w)
             \<lparr>queue := removeAll x (queue w)\<rparr>))"
  define u where "u = snd (end_io_head x ?v)"
  note f = inflight [OF assms(1,3)]
  have v: "BIO_REFFED (bios ?v 0) = BIO_REFFED (bios w 0)"
    "bi_cnt (bios ?v 0) = bi_cnt (bios w 0)" "bi_freed (bios ?v 0) = bi_freed (bios w 0)"
    "dio ?v = dio w"
    by simp_all
  have s: "is_sync (dio w) = ki_sync (iocb w)" using assms(1) by (simp add: dio_inv_def)
  have o: "ki_sync (iocb u) = ki_sync (iocb w)" "pc u = pc w"
    "multi_bio (dio u) = multi_bio (dio w)"
    "nfin u = (if \<not> multi_bio (dio w) \<or> dio_ref (dio w) = 1 then 1 else 0)"
    "queue u = removeAll x (queue w)" "ended u = x # ended w"
    unfolding u_def using f(1) by auto
  have p1: "\<forall>h\<in>set (hs @ [(x, sd)]). fst h \<in> set (ended u)"
    unfolding o using assms(2) by (simp add: ref_inv_def)
  have p2: "\<not> at_first (pc u)" using f(3) unfolding o by simp
  show ?thesis
  proof (cases "multi_bio (dio w)")
    case False
    then show ?thesis
      unfolding ref_inv_def u_def [symmetric] using p1 p2 o(3) by simp
  next
    case True
    then have r: "BIO_REFFED (bios ?v 0)" using assms(2) by (simp add: ref_inv_def)
    have nr: "\<not> released w" using assms(2) True f(1) by (auto simp add: ref_inv_def)
    have b: "bi_cnt (bios w 0) = (if handled w hs then 0 else 1) + 1"
      "bi_freed (bios w 0) = 0" "0 \<in> set (queue w) \<or> 0 \<in> set (ended w)"
      using assms(2) True nr by (simp_all add: ref_inv_def)
    have "\<not> (ki_sync (iocb w) \<and> returned (pc w))"
      using nr by (auto simp add: released_def)
    then have rel: "released u \<longleftrightarrow> \<not> ki_sync (iocb w) \<and> dio_ref (dio w) = 1"
      unfolding released_def o using True by auto
    have hd: "handled u (hs @ [(x, sd)]) = handled w hs"
      unfolding handled_def o using f(2) by auto
    have c: "BIO_REFFED (bios u 0)"
      "bi_cnt (bios u 0) = bi_cnt (bios w 0)
        - (if \<not> ki_sync (iocb w) \<and> dio_ref (dio w) = 1 then 1 else 0)"
      "bi_freed (bios u 0) =
        (if \<not> ki_sync (iocb w) \<and> dio_ref (dio w) = 1 \<and> bi_cnt (bios w 0) = 1 then 1 else 0)"
    proof -
      show "BIO_REFFED (bios u 0)" unfolding u_def by (rule head_ref(1) [OF r])
      show "bi_cnt (bios u 0) = bi_cnt (bios w 0)
        - (if \<not> ki_sync (iocb w) \<and> dio_ref (dio w) = 1 then 1 else 0)"
        unfolding u_def head_ref(2) [OF r] v using True s by simp
      show "bi_freed (bios u 0) =
        (if \<not> ki_sync (iocb w) \<and> dio_ref (dio w) = 1 \<and> bi_cnt (bios w 0) = 1 then 1 else 0)"
        unfolding u_def head_ref(3) [OF r] v using True s b(2) by simp
    qed
    have p3: "0 \<in> set (queue u) \<or> 0 \<in> set (ended u)"
      using b(3) unfolding o by auto
    have p4: "released u \<longrightarrow> nfin u = 1"
      using True unfolding rel o by auto
    have p5: "bi_cnt (bios u 0) =
        (if handled u (hs @ [(x, sd)]) then 0 else 1) + (if released u then 0 else 1)"
      unfolding c b rel hd by auto
    have p6: "bi_freed (bios u 0) =
        (if handled u (hs @ [(x, sd)]) \<and> released u then 1 else 0)"
      unfolding c b rel hd by auto
    show ?thesis
      unfolding ref_inv_def u_def [symmetric] using p1 p2 p3 p4 p5 p6 c(1) by simp
  qed
qed

lemma ref_finish:
  assumes "dio_inv w" and "ref_inv w hs" and "map_of hs b = Some sd"
  shows "ref_inv (end_io_release sd b w) (filter (\<lambda>h. fst h \<noteq> b) hs)"
proof -
  define u where "u = end_io_release sd b w"
  define gs where "gs = filter (\<lambda>h. fst h \<noteq> b) hs"
  have "(b, sd) \<in> set hs" using assms(3) by (rule map_of_SomeD)
  then have e: "b \<in> set (ended w)" using assms(2) by (auto simp add: ref_inv_def)
  have o: "ended u = ended w" "queue u = queue w" "pc u = pc w" "nfin u = nfin w"
    "multi_bio (dio u) = multi_bio (dio w)" "ki_sync (iocb u) = ki_sync (iocb w)"
    unfolding u_def by simp_all
  have m: "map_of gs 0 = (if b = 0 then None else map_of hs 0)"
    unfolding gs_def by (simp only: map_of_filter_other) auto
  have rel: "released u = released w" by (simp add: released_def o)
  have p1: "\<forall>h\<in>set gs. fst h \<in> set (ended u)"
    unfolding o gs_def using assms(2) by (simp add: ref_inv_def)
  have p2: "\<not> at_first (pc u)"
    unfolding o using first_nothing_ended [OF assms(1)] e by auto
  show ?thesis
  proof (cases "multi_bio (dio w)")
    case False
    then show ?thesis
      unfolding u_def [symmetric] gs_def [symmetric] ref_inv_def using p1 p2 o(5) by simp
  next
    case True
    have b: "bi_cnt (bios w 0) = (if handled w hs then 0 else 1) + (if released w then 0 else 1)"
      "bi_freed (bios w 0) = (if handled w hs \<and> released w then 1 else 0)"
      "0 \<in> set (queue w) \<or> 0 \<in> set (ended w)" "BIO_REFFED (bios w 0)"
      "released w \<longrightarrow> nfin w = 1"
      using assms(2) True by (simp_all add: ref_inv_def)
    have p3: "0 \<in> set (queue u) \<or> 0 \<in> set (ended u)" "released u \<longrightarrow> nfin u = 1"
      unfolding o rel using b(3,5) by simp_all
    show ?thesis
    proof (cases "b = 0")
      case False
      then have hd: "handled u gs = handled w hs"
        by (simp add: handled_def o m)
      have c: "BIO_REFFED (bios u 0) = BIO_REFFED (bios w 0)"
        "bi_cnt (bios u 0) = bi_cnt (bios w 0)" "bi_freed (bios u 0) = bi_freed (bios w 0)"
        unfolding u_def using False by simp_all
      show ?thesis
        unfolding u_def [symmetric] gs_def [symmetric] ref_inv_def
        using p1 p2 p3 b(1,2,4) True o(5) unfolding c hd rel by simp
    next
      case z: True
      have h0: "\<not> handled w hs" using assms(3) z by (simp add: handled_def)
      have hd: "handled u gs" using e z by (simp add: handled_def o m)
      have c: "BIO_REFFED (bios u 0)"
        "bi_cnt (bios u 0) = (if released w then 0 else 1)"
        "bi_freed (bios u 0) = (if released w then 1 else 0)"
        unfolding u_def using z b h0 by (simp_all add: put_def)
      show ?thesis
        unfolding u_def [symmetric] gs_def [symmetric] ref_inv_def
        using c hd p1 p2 p3 True o(5) rel by simp
    qed
  qed
qed

lemma fine_inv_step:
  assumes "fine_inv c"
  shows "fine_inv (fine_step a c)"
proof -
  obtain w hs where c: "c = (w, hs)" by (cases c)
  have i: "dio_inv w" and v: "waiter_inv w" and r: "ref_inv w hs"
    using assms by (simp_all add: fine_inv_def c)
  show ?thesis
  proof (cases a)
    case Thread
    have "fine_step a c = (thread_step w, hs)" by (simp add: Thread c)
    then show ?thesis
      using inv_step [OF i, of Run] waiter_step [OF i v, of Run] ref_thread [OF i v r]
      by (simp add: fine_inv_def)
  next
    case (Arrive x s)
    show ?thesis
    proof (cases "x \<in> set (queue w)")
      case True
      show ?thesis
        unfolding Arrive c arrive_eq [OF i True]
        using head_inv [OF i v True] ref_arrive [OF i r True]
        by (simp add: fine_inv_def)
    next
      case False
      show ?thesis
        unfolding Arrive c arrive_idle [OF i False] using assms by (simp add: c)
    qed
  next
    case (Finish b)
    show ?thesis
    proof (cases "map_of hs b")
      case None
      then show ?thesis using assms by (simp add: Finish c)
    next
      case (Some sd)
      then have "fine_step a c = (end_io_release sd b w, filter (\<lambda>h. fst h \<noteq> b) hs)"
        by (simp add: Finish c)
      then show ?thesis
        using i v ref_finish [OF i r Some]
        by (simp add: fine_inv_def release_dio_inv release_waiter_inv)
    qed
  qed
qed

lemma fine_inv_run: "fine_inv c \<Longrightarrow> fine_inv (fine_run fs c)"
  by (induction fs arbitrary: c) (simp_all add: fine_inv_step)

lemma fine_inv_start:
  "\<not> misaligned w \<Longrightarrow> fine_inv (uu_blkdev_direct_IO n (fresh w), [])"
  by (simp add: fine_inv_def inv_start waiter_start ref_start)

lemma thread_release:
  assumes "dio_inv w" and "waiter_inv w" and "multi_bio (dio w)"
  shows "(0 \<in> set (ended (thread_step w))) = (0 \<in> set (ended w)) \<and>
    multi_bio (dio (thread_step w)) \<and>
    ki_sync (iocb (thread_step w)) = ki_sync (iocb w) \<and>
    (released (thread_step w) \<noteq> released w \<longrightarrow>
      (if ki_sync (iocb w)
       then (\<exists>r. pc w = PC_wait r) \<and> nfin w = 1 \<and>
            outcomes (trace (thread_step w)) = outcomes (trace w)
       else nfin w = 0 \<and> nfin (thread_step w) = 1 \<and>
            length (outcomes (trace (thread_step w))) = length (outcomes (trace w)) + 1))"
  using assms(1)
proof (cases rule: step_cases [where a = Run])
  case idle
  then show ?thesis using assms(3) by simp
next
  case (complete x s)
  then show ?thesis by simp
next
  case (fail b pos)
  have n: "nfin w = 0" and b0: "b \<noteq> 0" using fail(3) assms(3) by (auto simp add: in_loop_def)
  have o: "ki_sync (iocb (thread_step w)) = ki_sync (iocb w)"
    "returned (pc (thread_step w)) = (\<not> ki_sync (iocb w))"
    "nfin (thread_step w) = (if dio_ref (dio w) = 1 then 1 else 0)"
    "length (outcomes (trace (thread_step w))) = length (outcomes (trace w)) + 1"
    "ended (thread_step w) = b # ended w" "multi_bio (dio (thread_step w))"
    unfolding fail(5) [unfolded step.simps] using n assms(3) by simp_all
  show ?thesis
    using n o(4,6) fail(2) b0 unfolding released_def o(1,2,3,5)
    by (cases "ki_sync (iocb w)"; cases "dio_ref (dio w) = 1") simp_all
next
  case (abort pos)
  then show ?thesis using assms(3) by (simp add: in_loop_def)
next
  case (last b pos)
  have n: "nfin w = 0" using last(3) by (simp add: in_loop_def)
  have o: "ki_sync (iocb (thread_step w)) = ki_sync (iocb w)"
    "returned (pc (thread_step w)) = (\<not> ki_sync (iocb w))"
    "nfin (thread_step w) = nfin w" "ended (thread_step w) = ended w"
    "multi_bio (dio (thread_step w))"
    unfolding last(5) [unfolded step.simps] using assms(3) by simp_all
  show ?thesis
    using n last(2) o(5) unfolding released_def o(1,2,3,4)
    by (cases "ki_sync (iocb w)") simp_all
next
  case (more b pos)
  have o: "ki_sync (iocb (thread_step w)) = ki_sync (iocb w)"
    "returned (pc (thread_step w)) = False"
    "nfin (thread_step w) = nfin w" "ended (thread_step w) = ended w"
    "multi_bio (dio (thread_step w))"
    unfolding more(6) [unfolded step.simps] by simp_all
  show ?thesis
    using more(2) o(5) unfolding released_def o(1,2,3,4)
    by (cases "ki_sync (iocb w)") simp_all
next
  case (woken r)
  have k: "ki_sync (iocb w)" using assms(1) woken(2) by (simp add: dio_inv_def)
  then have n: "nfin w = 1" using assms(2) woken(4) by (simp add: waiter_inv_def)
  have "outcomes (trace (thread_step w)) = outcomes (trace w)"
    "ended (thread_step w) = ended w" "multi_bio (dio (thread_step w))"
    "ki_sync (iocb (thread_step w)) = ki_sync (iocb w)"
    unfolding woken(5) [unfolded step.simps] using assms(3) by simp_all
  then show ?thesis using k n woken(2) by simp
qed

lemma arrive_release:
  assumes "dio_inv w" and "ref_inv w hs" and "multi_bio (dio w)" and "x \<in> set (queue w)"
  shows "handled (snd (end_io_head x
       (emit (EvEndio x (if s \<noteq> BLK_STS_OK then s else bi_status (bios w x)))
          ((if s \<noteq> BLK_STS_OK then upd_bio x (\<lambda>b. b\<lparr>bi_status := s\<rparr>) w else w)
             \<lparr>queue := removeAll x (queue w)\<rparr>)))) (hs @ [(x, sd)]) = handled w hs \<and>
    (released (snd (end_io_head x
       (emit (EvEndio x (if s \<noteq> BLK_STS_OK then s else bi_status (bios w x)))
          ((if s \<noteq> BLK_STS_OK then upd_bio x (\<lambda>b. b\<lparr>bi_status := s\<rparr>) w else w)
             \<lparr>queue := removeAll x (queue w)\<rparr>)))) \<noteq> released w \<longrightarrow>
      \<not> ki_sync (iocb w) \<and> nfin w = 0 \<and>
      nfin (snd (end_io_head x
       (emit (EvEndio x (if s \<noteq> BLK_STS_OK then s else bi_status (bios w x)))
          ((if s \<noteq> BLK_STS_OK then upd_bio x (\<lambda>b. b\<lparr>bi_status := s\<rparr>) w else w)
             \<lparr>queue := removeAll x (queue w)\<rparr>)))) = 1 \<and>
      length (outcomes (trace (snd (end_io_head x
       (emit (EvEndio x (if s \<noteq> BLK_STS_OK then s else bi_status (bios w x)))
          ((if s \<noteq> BLK_STS_OK then upd_bio x (\<lambda>b. b\<lparr>bi_status := s\<rparr>) w else w)
             \<lparr>queue := removeAll x (queue w)\<rparr>)))))) = length (outcomes (trace w)) + 1)"
proof -
  let ?v = "(emit (EvEndio x (if s \<noteq> BLK_STS_OK then s else bi_status (bios w x)))
          ((if s \<noteq> BLK_STS_OK then upd_bio x (\<lambda>b. b\<lparr>bi_status := s\<rparr>) w else w)
             \<lparr>queue := removeAll x (queue w)\<rparr>))"
  define u where "u = snd (end_io_head x ?v)"
  note f = inflight [OF assms(1,4)]
  have o: "ki_sync (iocb u) = ki_sync (iocb w)" "pc u = pc w"
    "nfin u = (if dio_ref (dio w) = 1 then 1 else 0)"
    "ended u = x # ended w"
    "length (outcomes (trace u)) = length (outcomes (trace w)) + 1"
    unfolding u_def using f(1) assms(3) by auto
  have hd: "handled u (hs @ [(x, sd)]) = handled w hs"
    unfolding handled_def o using f(2) by auto
  have "released u \<noteq> released w \<longrightarrow>
      \<not> ki_sync (iocb w) \<and> nfin w = 0 \<and> nfin u = 1 \<and>
      length (outcomes (trace u)) = length (outcomes (trace w)) + 1"
    using f(1) o(5) unfolding released_def o(1,2,3)
    by (cases "ki_sync (iocb w)"; cases "dio_ref (dio w) = 1") simp_all
  then show ?thesis using hd unfolding u_def by simp
qed

lemma fine_release:
  assumes "fine_inv c" and "multi_bio (dio (fst c))"
  shows "multi_bio (dio (fst (fine_step a c))) \<and>
    ki_sync (iocb (fst (fine_step a c))) = ki_sync (iocb (fst c)) \<and>
    (handled (fst (fine_step a c)) (snd (fine_step a c)) \<noteq> handled (fst c) (snd c) \<longrightarrow>
       a = Finish 0 \<and> released (fst (fine_step a c)) = released (fst c) \<and>
       nfin (fst (fine_step a c)) = nfin (fst c)) \<and>
    (released (fst (fine_step a c)) \<noteq> released (fst c) \<longrightarrow>
      (if ki_sync (iocb (fst c))
       then a = Thread \<and> (\<exists>r. pc (fst c) = PC_wait r) \<and> nfin (fst c) = 1 \<and>
            outcomes (trace (fst (fine_step a c))) = outcomes (trace (fst c))
       else nfin (fst c) = 0 \<and> nfin (fst (fine_step a c)) = 1 \<and>
            length (outcomes (trace (fst (fine_step a c)))) =
            length (outcomes (trace (fst c))) + 1))"
proof -
  obtain w hs where c: "c = (w, hs)" by (cases c)
  have i: "dio_inv w" and v: "waiter_inv w" and r: "ref_inv w hs" and m: "multi_bio (dio w)"
    using assms by (simp_all add: fine_inv_def c)
  show ?thesis
  proof (cases a)
    case Thread
    have e: "fine_step a c = (thread_step w, hs)" by (simp add: Thread c)
    show ?thesis
      unfolding e using thread_release [OF i v m] Thread by (simp add: c handled_def)
  next
    case (Arrive x s)
    show ?thesis
    proof (cases "x \<in> set (queue w)")
      case True
      show ?thesis
        unfolding Arrive c arrive_eq [OF i True]
        using arrive_release [OF i r m True, of s "should_dirty (dio w)"] m
        by (cases "ki_sync (iocb w)") simp_all
    next
      case False
      show ?thesis
        unfolding Arrive c arrive_idle [OF i False] using m by simp
    qed
  next
    case (Finish b)
    show ?thesis
    proof (cases "map_of hs b")
      case None
      then show ?thesis using m by (simp add: Finish c)
    next
      case (Some sd)
      then have e: "fine_step a c = (end_io_release sd b w, filter (\<lambda>h. fst h \<noteq> b) hs)"
        by (simp add: Finish c)
      have k: "map_of (filter (\<lambda>h. fst h \<noteq> b) hs) 0 = (if b = 0 then None else map_of hs 0)"
        by (simp only: map_of_filter_other) auto
      have "released (end_io_release sd b w) = released w" by (simp add: released_def)
      moreover have "b \<noteq> 0 \<longrightarrow>
          handled (end_io_release sd b w) (filter (\<lambda>h. fst h \<noteq> b) hs) = handled w hs"
        unfolding handled_def k by simp
      ultimately show ?thesis
        unfolding e using m Finish by (auto simp add: c)
    qed
  qed
qed

lemma sync_fine_run:
  "fine_inv c \<Longrightarrow> ki_sync (iocb (fst (fine_run fs c))) = ki_sync (iocb (fst c))"
proof (induction fs arbitrary: c)
  case Nil
  then show ?case by simp
next
  case (Cons a fs)
  show ?case
  proof (cases "multi_bio (dio (fst c))")
    case True
    then show ?thesis
      using Cons.IH [OF fine_inv_step [OF Cons.prems, of a]] fine_release [OF Cons.prems True, of a]
      by simp
  next
    case False
    obtain w hs where c: "c = (w, hs)" by (cases c)
    have i: "dio_inv w" using Cons.prems by (simp add: fine_inv_def c)
    have "ki_sync (iocb (fst (fine_step a c))) = ki_sync (iocb w)"
    proof (cases a)
      case Thread
      then show ?thesis using sync_step [OF i, of Run] by (simp add: c)
    next
      case (Arrive x s)
      show ?thesis
      proof (cases "x \<in> set (queue w)")
        case True
        show ?thesis unfolding Arrive c arrive_eq [OF i True] by simp
      next
        case False
        show ?thesis unfolding Arrive c arrive_idle [OF i False] by simp
      qed
    next
      case (Finish b)
      then show ?thesis by (cases "map_of hs b") (simp_all add: c)
    qed
    then show ?thesis
      using Cons.IH [OF fine_inv_step [OF Cons.prems, of a]] by (simp add: c)
  qed
qed

lemma fine_transition:
  assumes "fine_inv c" and "\<not> multi_bio (dio (fst c))"
    and "multi_bio (dio (fst (fine_step a c)))"
  shows "a = Thread \<and> BIO_REFFED (bios (fst (fine_step a c)) 0) \<and>
    bi_cnt (bios (fst (fine_step a c)) 0) = 2 \<and>
    bi_cnt (bios (fst c) 0) = (if ki_sync (iocb (fst c)) then 2 else 1)"
proof -
  obtain w hs where c: "c = (w, hs)" by (cases c)
  have i: "dio_inv w" and v: "waiter_inv w" and r: "ref_inv w hs" and m: "\<not> multi_bio (dio w)"
    using assms by (simp_all add: fine_inv_def c)
  show ?thesis
  proof (cases a)
    case (Arrive x s)
    have False
    proof (cases "x \<in> set (queue w)")
      case True
      show ?thesis using assms(3) m unfolding Arrive c arrive_eq [OF i True]
        by (auto split: if_splits)
    next
      case False
      show ?thesis using assms(3) m unfolding Arrive c arrive_idle [OF i False] by simp
    qed
    then show ?thesis by simp
  next
    case (Finish b)
    have False using assms(3) m by (cases "map_of hs b") (simp_all add: Finish c)
    then show ?thesis by simp
  next
    case Thread
    have e: "fine_step a c = (thread_step w, hs)" by (simp add: Thread c)
    have m2: "multi_bio (dio (thread_step w))" using assms(3) by (simp add: e)
    have "BIO_REFFED (bios (thread_step w) 0) \<and> bi_cnt (bios (thread_step w) 0) = 2 \<and>
      bi_cnt (bios w 0) = (if ki_sync (iocb w) then 2 else 1)"
      using i
    proof (cases rule: step_cases [where a = Run])
      case idle
      then show ?thesis using m m2 by simp
    next
      case (complete x s)
      then show ?thesis by simp
    next
      case (fail b pos)
      have "multi_bio (dio (thread_step w)) = multi_bio (dio w)"
        unfolding fail(5) [unfolded step.simps] by simp
      then show ?thesis using m m2 by simp
    next
      case (abort pos)
      have "multi_bio (dio (thread_step w)) = multi_bio (dio w)"
        unfolding abort(7) [unfolded step.simps] by simp
      then show ?thesis using m m2 by simp
    next
      case (last b pos)
      have "multi_bio (dio (thread_step w)) = multi_bio (dio w)"
        unfolding last(5) [unfolded step.simps] by simp
      then show ?thesis using m m2 by simp
    next
      case (woken r)
      have "multi_bio (dio (thread_step w)) = multi_bio (dio w)"
        unfolding woken(5) [unfolded step.simps] by simp
      then show ?thesis using m m2 by simp
    next
      case (more b pos)
      have b0: "b = 0" and e0: "ended w = []" and n: "nfin w = 0"
        using more(3) m by (auto simp add: in_loop_def)
      have f: "bi_cnt (bios w 0) = (if ki_sync (iocb w) then 2 else 1)"
        using r more(2) b0 by (simp add: ref_inv_def)
      have o: "ended (thread_step w) = []" "nfin (thread_step w) = 0"
        "returned (pc (thread_step w)) = False"
        unfolding more(6) [unfolded step.simps] using e0 n by simp_all
      have "\<not> released (thread_step w)" "\<not> handled (thread_step w) hs"
        by (simp_all add: released_def handled_def o)
      then show ?thesis
        using ref_thread [OF i v r] m2 f by (simp add: ref_inv_def)
    qed
    then show ?thesis using Thread by (simp add: e c)
  qed
qed

lemma finalized_quiescent:
  assumes "dio_inv w" and "multi_bio (dio w)" and "nfin w = 1"
  shows "queue w = []" and "\<not> submitting (pc w)"
proof -
  have "queue w = [] \<and> \<not> submitting (pc w)"
  proof (cases "pc w")
    case (PC_loop b pos)
    then show ?thesis using assms by (simp add: dio_inv_def in_loop_def)
  next
    case (PC_wait r)
    then have "nfin w = (if queue w = [] then 1 else 0)"
      using assms(1,2) by (simp add: dio_inv_def after_loop_def)
    then show ?thesis using assms(3) PC_wait by (cases "queue w = []") simp_all
  next
    case (PC_return r)
    then have "after_loop w" using assms(1,2) by (auto simp add: dio_inv_def aborted_def)
    then have "nfin w = (if queue w = [] then 1 else 0)"
      using assms(2) by (simp add: after_loop_def)
    then show ?thesis using assms(3) PC_return by (cases "queue w = []") simp_all
  qed (use assms(1) in \<open>simp_all add: dio_inv_def\<close>)
  then show "queue w = []" and "\<not> submitting (pc w)" by simp_all
qed

lemma fine_thread_releases:
  assumes "fine_inv (w, hs)" and "multi_bio (dio w)" and "ki_sync (iocb w)"
    and "queue w = []" and "\<not> submitting (pc w)" and "map_of hs 0 = None"
  shows "bi_freed (bios (thread_step w) 0) = 1"
proof -
  have i: "dio_inv w" and v: "waiter_inv w" and r: "ref_inv w hs"
    using assms(1) by (simp_all add: fine_inv_def)
  have n: "nfin w = 1"
    using quiescent_nfin [OF i assms(5,4)] multi_iff [OF i] assms(2) by simp
  then have p: "dio_ptr (dio w) = NULL" using v assms(3) by (simp add: waiter_inv_def)
  have e: "0 \<in> set (ended w)" using r assms(2,4) by (simp add: ref_inv_def)
  have t: "returned (pc (thread_step w)) \<and> ended (thread_step w) = ended w"
  proof (cases "pc w")
    case (PC_wait r)
    then show ?thesis
      using p by (simp add: thread_step_def uu_blkdev_direct_IO_wait_def Let_def)
  next
    case (PC_return r)
    then show ?thesis by (simp add: thread_step_def)
  qed (use i assms(5) in \<open>simp_all add: dio_inv_def\<close>)
  have "released (thread_step w)"
    using t assms(3) sync_step [OF i, of Run] by (simp add: released_def)
  moreover have "handled (thread_step w) hs"
    using t e assms(6) by (simp add: handled_def)
  moreover have "multi_bio (dio (thread_step w))"
    using multi_step [OF i assms(2), of Run] by simp
  ultimately show ?thesis
    using ref_thread [OF i v r] by (simp add: ref_inv_def)
qed

lemma complete_is_arrive_finish:
  assumes "dio_inv w" and "x \<in> set (queue w)" and "map_of hs x = None"
  shows "fine_step (Finish x) (fine_step (Arrive x s) (w, hs)) = (step (Complete x s) w, hs)"
proof -
  let ?v = "(emit (EvEndio x (if s \<noteq> BLK_STS_OK then s else bi_status (bios w x)))
          ((if s \<noteq> BLK_STS_OK then upd_bio x (\<lambda>b. b\<lparr>bi_status := s\<rparr>) w else w)
             \<lparr>queue := removeAll x (queue w)\<rparr>))"
  have e: "bi_end_io (bios w x) = BLKDEV_BIO_END_IO"
    using assms(1,2) by (simp add: dio_inv_def)
  have f: "filter (\<lambda>h. fst h \<noteq> x) hs = hs"
    using assms(3) by (induction hs) (auto split: if_splits)
  have "fine_step (Finish x) (snd (end_io_head x ?v), hs @ [(x, should_dirty (dio w))]) =
      (end_io_release (should_dirty (dio w)) x (snd (end_io_head x ?v)), hs)"
    using assms(3) f by (simp add: map_add_def)
  also have "end_io_release (should_dirty (dio w)) x (snd (end_io_head x ?v)) =
      step (Complete x s) w"
    using device_complete_dio [OF assms(2) e, of s] handler_split [of x ?v] by simp
  finally show ?thesis unfolding arrive_eq [OF assms(1,2)] .
qed




end
